theory Spec2Isabelle
  imports
    Main
    "HOL-Library.Char_ord"
    "HOL-Library.List_Lexorder"
    "HOL-Library.Product_Lexorder"
    "HOL-Library.Multiset"
    "HOL-Library.Sublist"
begin

section \<open>Python text\<close>

text \<open>
  A Python \<open>str\<close> is modelled as an Isabelle \<open>string\<close>: a character is one of the 256
  code points U+0000 to U+00FF (ASCII and Latin-1), read with \<open>of_char\<close>. The functions
  below follow \<open>str.isspace\<close>, \<open>str.lower\<close>, \<open>str.strip\<close>, \<open>str.title\<close>, \<open>str.zfill\<close> and
  \<open>str(int)\<close> on that range. A text holding a code point from U+0100 upwards is not a
  value of the type. Lower-casing and stripping stay inside the range; the title case
  of two letters (U+00B5 and U+00FF) lies outside it, and \<open>title_char\<close> leaves them as
  they are.
\<close>

definition isspace :: "char \<Rightarrow> bool" where
  \<comment> \<open>\<open>str.isspace\<close> below U+0100: TAB, LF, VT, FF, CR, the separators FS, GS, RS, US,
      SPACE, NEXT LINE (U+0085) and NO-BREAK SPACE (U+00A0).\<close>
  "isspace c = (of_char c \<in> {9::nat, 10, 11, 12, 13, 28, 29, 30, 31, 32, 133, 160})"

definition isupper :: "char \<Rightarrow> bool" where
  \<comment> \<open>The upper-case letters: A to Z, and U+00C0 to U+00DE but for the sign U+00D7.\<close>
  "isupper c =
     ((65 \<le> (of_char c :: nat) \<and> (of_char c :: nat) \<le> 90)
      \<or> (192 \<le> (of_char c :: nat) \<and> (of_char c :: nat) \<le> 222 \<and> (of_char c :: nat) \<noteq> 215))"

definition islower :: "char \<Rightarrow> bool" where
  \<comment> \<open>The lower-case letters: a to z, the ordinal indicators U+00AA and U+00BA, the micro
      sign U+00B5, and U+00DF to U+00FF but for the sign U+00F7.\<close>
  "islower c =
     ((97 \<le> (of_char c :: nat) \<and> (of_char c :: nat) \<le> 122)
      \<or> of_char c \<in> {170::nat, 181, 186}
      \<or> (223 \<le> (of_char c :: nat) \<and> (of_char c :: nat) \<noteq> 247))"

definition lower_char :: "char \<Rightarrow> char" where
  \<comment> \<open>Every upper-case letter of the range has its lower-case form 32 places up.\<close>
  "lower_char c = (if isupper c then char_of (of_char c + (32::nat)) else c)"

definition title_char :: "char \<Rightarrow> string" where
  \<comment> \<open>The title case of one character: the upper-case form 32 places down; the sharp s
      (U+00DF) becomes \<open>Ss\<close>; the ordinal indicators have none; U+00B5 and U+00FF are left.\<close>
  "title_char c =
     (if of_char c = (223::nat) then ''Ss''
      else if (97 \<le> (of_char c :: nat) \<and> (of_char c :: nat) \<le> 122)
              \<or> (224 \<le> (of_char c :: nat) \<and> (of_char c :: nat) \<le> 254 \<and> (of_char c :: nat) \<noteq> 247)
           then [char_of (of_char c - (32::nat))]
      else [c])"

definition lower :: "string \<Rightarrow> string" where
  "lower s = map lower_char s"

definition strip :: "string \<Rightarrow> string" where
  \<comment> \<open>\<open>s.strip()\<close>: blanks are removed from both ends, never from the middle.\<close>
  "strip s = rev (dropWhile isspace (rev (dropWhile isspace s)))"

fun title_from :: "bool \<Rightarrow> string \<Rightarrow> string" where
  \<comment> \<open>\<open>str.title\<close>; the flag is CPython's \<open>previous_is_cased\<close>: a character after a letter
      is lower-cased, any other is title-cased.\<close>
  "title_from prev [] = []"
| "title_from prev (c # cs) =
     (if prev then [lower_char c] else title_char c) @ title_from (islower c \<or> isupper c) cs"

definition title :: "string \<Rightarrow> string" where
  "title s = title_from False s"

definition zfill :: "nat \<Rightarrow> string \<Rightarrow> string" where
  \<comment> \<open>\<open>s.zfill(width)\<close>: zeros go in front, after a leading sign if there is one; a string
      that is already wide enough is returned as it is.\<close>
  "zfill width s =
     (if width \<le> length s then s
      else (case s of
              c # cs \<Rightarrow>
                (if c = CHR ''+'' \<or> c = CHR ''-''
                 then c # replicate (width - length s) CHR ''0'' @ cs
                 else replicate (width - length s) CHR ''0'' @ s)
            | [] \<Rightarrow> replicate (width - length s) CHR ''0'' @ s))"

definition digit_char :: "nat \<Rightarrow> char" where
  "digit_char d = char_of (48 + d)"

fun str_nat :: "nat \<Rightarrow> string" where
  "str_nat n = (if n < 10 then [digit_char n] else str_nat (n div 10) @ [digit_char (n mod 10)])"

declare str_nat.simps [simp del]

definition py_str :: "int \<Rightarrow> string" where
  \<comment> \<open>\<open>str(i)\<close> and the \<open>{i}\<close> of an f-string, for an integer.\<close>
  "py_str i = (if i < 0 then CHR ''-'' # str_nat (nat (- i)) else str_nat (nat i))"

section \<open>Cells\<close>

text \<open>
  A cell of a frame as \<open>pd.read_csv\<close> delivers it: a missing value, a text, an
  integer, or a floating-point number that holds a whole number. The last is what
  \<open>read_csv\<close> makes of the numbers of a column that has a blank field: such a column is
  \<open>float64\<close>, and 12345 is read as 12345.0. Floating-point numbers with a fraction are not
  modelled.
\<close>

datatype cell = NaN | Str string | Num int | Float int

section \<open>State name standardization\<close>

definition STATE_MAPPING :: "(string \<times> string) list" where
  "STATE_MAPPING =
    [(''andaman & nicobar islands'', ''Andaman and Nicobar Islands''),
     (''andaman and nicobar islands'', ''Andaman and Nicobar Islands''),
     (''andhra pradesh'', ''Andhra Pradesh''),
     (''arunachal pradesh'', ''Arunachal Pradesh''),
     (''assam'', ''Assam''),
     (''bihar'', ''Bihar''),
     (''chandigarh'', ''Chandigarh''),
     (''chhattisgarh'', ''Chhattisgarh''),
     (''chhatisgarh'', ''Chhattisgarh''),
     (''dadra & nagar haveli'', ''Dadra and Nagar Haveli and Daman and Diu''),
     (''dadra and nagar haveli'', ''Dadra and Nagar Haveli and Daman and Diu''),
     (''dadra and nagar haveli and daman and diu'', ''Dadra and Nagar Haveli and Daman and Diu''),
     (''the dadra and nagar haveli and daman and diu'', ''Dadra and Nagar Haveli and Daman and Diu''),
     (''daman & diu'', ''Dadra and Nagar Haveli and Daman and Diu''),
     (''daman and diu'', ''Dadra and Nagar Haveli and Daman and Diu''),
     (''delhi'', ''Delhi''),
     (''goa'', ''Goa''),
     (''gujarat'', ''Gujarat''),
     (''haryana'', ''Haryana''),
     (''himachal pradesh'', ''Himachal Pradesh''),
     (''jammu & kashmir'', ''Jammu and Kashmir''),
     (''jammu and kashmir'', ''Jammu and Kashmir''),
     (''jharkhand'', ''Jharkhand''),
     (''karnataka'', ''Karnataka''),
     (''kerala'', ''Kerala''),
     (''ladakh'', ''Ladakh''),
     (''lakshadweep'', ''Lakshadweep''),
     (''madhya pradesh'', ''Madhya Pradesh''),
     (''maharashtra'', ''Maharashtra''),
     (''manipur'', ''Manipur''),
     (''meghalaya'', ''Meghalaya''),
     (''mizoram'', ''Mizoram''),
     (''nagaland'', ''Nagaland''),
     (''odisha'', ''Odisha''),
     (''orissa'', ''Odisha''),
     (''puducherry'', ''Puducherry''),
     (''pondicherry'', ''Puducherry''),
     (''punjab'', ''Punjab''),
     (''rajasthan'', ''Rajasthan''),
     (''sikkim'', ''Sikkim''),
     (''tamil nadu'', ''Tamil Nadu''),
     (''tamilnadu'', ''Tamil Nadu''),
     (''telangana'', ''Telangana''),
     (''tripura'', ''Tripura''),
     (''uttar pradesh'', ''Uttar Pradesh''),
     (''uttarakhand'', ''Uttarakhand''),
     (''uttaranchal'', ''Uttarakhand''),
     (''west bengal'', ''West Bengal''),
     (''west  bengal'', ''West Bengal''),
     (''west bangal'', ''West Bengal''),
     (''west bengli'', ''West Bengal''),
     (''westbengal'', ''West Bengal'')]"

definition INVALID_STATES :: "string list" where
  "INVALID_STATES =
    [''100000'', ''balanagar'', ''nagpur'', ''jaipur'', ''madanapalle'', ''raja annamalai puram'']"

definition float_str :: "int \<Rightarrow> string" where
  \<comment> \<open>\<open>str(x)\<close> of a float that holds a whole number (of at most 15 digits): \<open>12345.0\<close>.\<close>
  "float_str i = py_str i @ ''.0''"

definition cell_str :: "cell \<Rightarrow> string" where
  \<comment> \<open>\<open>str(value)\<close> of a cell.\<close>
  "cell_str v =
     (case v of Str s \<Rightarrow> s | Num i \<Rightarrow> py_str i | Float i \<Rightarrow> float_str i | NaN \<Rightarrow> ''nan'')"

definition standardize_state :: "cell \<Rightarrow> string" where
  "standardize_state state_value =
     (if state_value = NaN then ''INVALID''
      else let state_lower = lower (strip (cell_str state_value))
           in if state_lower \<in> set INVALID_STATES then ''INVALID''
              else (case map_of STATE_MAPPING state_lower of
                      Some official \<Rightarrow> official
                    | None \<Rightarrow> ''INVALID''))"

definition OFFICIAL_NAMES :: "string list" where
  \<comment> \<open>The official names are the values of the mapping table, each listed once.\<close>
  "OFFICIAL_NAMES = remdups (map snd STATE_MAPPING)"

section \<open>Errors\<close>

text \<open>The exceptions the cleaning script can let escape, as values.\<close>

datatype error =
    ValueError
  | KeyError string
  | AttributeError
  | ZeroDivisionError

definition bind_err :: "error + 'a \<Rightarrow> ('a \<Rightarrow> error + 'b) \<Rightarrow> error + 'b" where
  \<comment> \<open>Sequencing: an exception raised by the first step skips the rest.\<close>
  "bind_err m f = (case m of Inl e \<Rightarrow> Inl e | Inr x \<Rightarrow> f x)"

section \<open>Data frames\<close>

text \<open>
  A \<open>pd.DataFrame\<close> is its column labels and its rows, each row holding one cell per
  column in column order. The row index is not modelled: the script resets or ignores it.
\<close>

record dataframe =
  columns :: "string list"
  rows :: "cell list list"

definition wf_frame :: "dataframe \<Rightarrow> bool" where
  \<comment> \<open>What every frame read by \<open>pd.read_csv\<close> satisfies: distinct labels, rectangular rows.\<close>
  "wf_frame df =
     (distinct (columns df) \<and> list_all (\<lambda>r. length r = length (columns df)) (rows df))"

fun index_of :: "'a \<Rightarrow> 'a list \<Rightarrow> nat option" where
  "index_of x [] = None"
| "index_of x (y # ys) = (if x = y then Some 0 else map_option Suc (index_of x ys))"

definition getitem :: "dataframe \<Rightarrow> string \<Rightarrow> error + cell list" where
  \<comment> \<open>\<open>df[c]\<close>: the column as a series, \<open>KeyError\<close> for an unknown label.\<close>
  "getitem df c =
     (case index_of c (columns df) of
        None \<Rightarrow> Inl (KeyError c)
      | Some i \<Rightarrow> Inr (map (\<lambda>r. r ! i) (rows df)))"

definition cell_at :: "string list \<Rightarrow> string \<Rightarrow> cell list \<Rightarrow> cell" where
  \<comment> \<open>The cell of a row under a label, for a frame with the given column labels.\<close>
  "cell_at cols c r = (case index_of c cols of Some i \<Rightarrow> r ! i | None \<Rightarrow> NaN)"

definition setitem :: "dataframe \<Rightarrow> string \<Rightarrow> cell list \<Rightarrow> dataframe" where
  \<comment> \<open>\<open>df[c] = series\<close>: an existing column is overwritten in place, a new one is appended.\<close>
  "setitem df c vs =
     (case index_of c (columns df) of
        Some i \<Rightarrow> df\<lparr>rows := map2 (\<lambda>r v. r[i := v]) (rows df) vs\<rparr>
      | None \<Rightarrow> df\<lparr>columns := columns df @ [c], rows := map2 (\<lambda>r v. r @ [v]) (rows df) vs\<rparr>)"

fun lookup_all :: "string list \<Rightarrow> string list \<Rightarrow> error + nat list" where
  \<comment> \<open>Positions of the requested labels; the first unknown one is the \<open>KeyError\<close>.\<close>
  "lookup_all cols [] = Inr []"
| "lookup_all cols (c # cs) =
     (case index_of c cols of
        None \<Rightarrow> Inl (KeyError c)
      | Some i \<Rightarrow> bind_err (lookup_all cols cs) (\<lambda>is. Inr (i # is)))"

definition select_columns :: "dataframe \<Rightarrow> string list \<Rightarrow> error + dataframe" where
  \<comment> \<open>\<open>df[cols]\<close> with a list of labels.\<close>
  "select_columns df cols =
     bind_err (lookup_all (columns df) cols)
       (\<lambda>is. Inr \<lparr>columns = cols, rows = map (\<lambda>r. map (\<lambda>i. r ! i) is) (rows df)\<rparr>)"

fun first_occurrences :: "'a list \<Rightarrow> 'a list \<Rightarrow> 'a list" where
  \<comment> \<open>Keeps an element unless it was seen before; the first argument holds what was seen.\<close>
  "first_occurrences seen [] = []"
| "first_occurrences seen (x # xs) =
     (if x \<in> set seen then first_occurrences seen xs
      else x # first_occurrences (x # seen) xs)"

definition drop_duplicates :: "dataframe \<Rightarrow> dataframe" where
  \<comment> \<open>\<open>df.drop_duplicates()\<close>: all columns compared, \<open>keep='first'\<close>; missing values
      count as equal to each other.\<close>
  "drop_duplicates df = df\<lparr>rows := first_occurrences [] (rows df)\<rparr>"

definition reindex_row :: "string list \<Rightarrow> string list \<Rightarrow> cell list \<Rightarrow> cell list" where
  "reindex_row new_cols cols r =
     map (\<lambda>c. case index_of c cols of Some i \<Rightarrow> r ! i | None \<Rightarrow> NaN) new_cols"

definition pd_concat :: "dataframe list \<Rightarrow> error + dataframe" where
  \<comment> \<open>\<open>pd.concat(dfs, ignore_index=True)\<close>: rows one frame after the other, columns aligned
      by label in order of first appearance, absent cells missing. An empty list raises
      \<open>ValueError: No objects to concatenate\<close>. The cells are kept as they are; that a
      column of integers which is filled here has become \<open>float64\<close> is read off the
      column by \<open>float_column\<close> where the dtype shows, in the cast to text.\<close>
  "pd_concat dfs =
     (if dfs = [] then Inl ValueError
      else let cols = first_occurrences [] (concat (map columns dfs))
           in Inr \<lparr>columns = cols,
                   rows = concat (map (\<lambda>df. map (reindex_row cols (columns df)) (rows df)) dfs)\<rparr>)"

section \<open>Column formatting\<close>

definition is_text :: "cell \<Rightarrow> bool" where
  "is_text v = (case v of Str s \<Rightarrow> True | _ \<Rightarrow> False)"

definition is_num :: "cell \<Rightarrow> bool" where
  "is_num v = (case v of Num i \<Rightarrow> True | Float i \<Rightarrow> True | _ \<Rightarrow> False)"

definition is_float :: "cell \<Rightarrow> bool" where
  "is_float v = (case v of Float i \<Rightarrow> True | _ \<Rightarrow> False)"

definition float_column :: "cell list \<Rightarrow> bool" where
  \<comment> \<open>The dtype of a column is \<open>float64\<close>: it holds no text, and a missing value or a
      float. pandas has no integer column with a missing value: when \<open>pd.concat\<close> fills
      a numeric column, or joins an integer column to a float one, every number of the
      column becomes a float.\<close>
  "float_column vs = (\<not> list_ex is_text vs \<and> list_ex (\<lambda>v. v = NaN \<or> is_float v) vs)"

definition dtype_str :: "bool \<Rightarrow> cell \<Rightarrow> string" where
  \<comment> \<open>\<open>str(value)\<close> of a cell of a column whose dtype is, or is not, \<open>float64\<close>.\<close>
  "dtype_str as_float v =
     (case v of Num i \<Rightarrow> (if as_float then float_str i else py_str i) | _ \<Rightarrow> cell_str v)"

definition astype_str :: "cell list \<Rightarrow> cell list" where
  \<comment> \<open>\<open>series.astype(str)\<close>: the missing value becomes the text \<open>nan\<close>.\<close>
  "astype_str vs = map (\<lambda>v. Str (dtype_str (float_column vs) v)) vs"

definition str_accessor :: "cell list \<Rightarrow> error + cell list" where
  \<comment> \<open>\<open>series.str\<close>: available on a column of texts (an empty column included); a column of
      numbers or of missing values only is numeric and raises \<open>AttributeError\<close>.\<close>
  "str_accessor vs = (if vs = [] \<or> list_ex is_text vs then Inr vs else Inl AttributeError)"

definition str_method :: "(string \<Rightarrow> string) \<Rightarrow> cell \<Rightarrow> cell" where
  \<comment> \<open>A \<open>.str\<close> method on one element: anything that is not a text becomes missing.\<close>
  "str_method f v = (case v of Str s \<Rightarrow> Str (f s) | _ \<Rightarrow> NaN)"

definition standardize_states :: "dataframe \<Rightarrow> error + dataframe" where
  "standardize_states df =
     bind_err (getitem df ''state'') (\<lambda>state.
       let df1 = setitem df ''state_original'' state
       in bind_err (getitem df1 ''state'') (\<lambda>state1.
            Inr (setitem df1 ''state'' (map (\<lambda>v. Str (standardize_state v)) state1))))"

definition standardize_districts :: "dataframe \<Rightarrow> error + dataframe" where
  \<comment> \<open>\<open>df['district'].str.strip().str.title()\<close>; the stripped column is a text column again.\<close>
  "standardize_districts df =
     bind_err (getitem df ''district'') (\<lambda>district.
       bind_err (str_accessor district) (\<lambda>texts.
         Inr (setitem df ''district'' (map (str_method title) (map (str_method strip) texts)))))"

definition isdigit :: "char \<Rightarrow> bool" where
  "isdigit c = (48 \<le> (of_char c :: nat) \<and> (of_char c :: nat) \<le> 57)"

definition digit_val :: "char \<Rightarrow> nat" where
  "digit_val c = of_char c - 48"

definition int_of_digits :: "string \<Rightarrow> nat" where
  "int_of_digits s = foldl (\<lambda>n c. 10 * n + digit_val c) 0 s"

definition matches_d :: "string \<Rightarrow> bool" where
  \<comment> \<open>The directive \<open>%d\<close>: \<open>3[0-1]|[1-2]\<backslash>d|0[1-9]|[1-9]| [1-9]\<close>.\<close>
  "matches_d s =
     (case s of
        [a] \<Rightarrow> isdigit a \<and> a \<noteq> CHR ''0''
      | [a, b] \<Rightarrow>
          (a = CHR ''3'' \<and> (b = CHR ''0'' \<or> b = CHR ''1''))
          \<or> ((a = CHR ''1'' \<or> a = CHR ''2'') \<and> isdigit b)
          \<or> ((a = CHR ''0'' \<or> a = CHR '' '') \<and> isdigit b \<and> b \<noteq> CHR ''0'')
      | _ \<Rightarrow> False)"

definition matches_m :: "string \<Rightarrow> bool" where
  \<comment> \<open>The directive \<open>%m\<close>: \<open>1[0-2]|0[1-9]|[1-9]\<close>.\<close>
  "matches_m s =
     (case s of
        [a] \<Rightarrow> isdigit a \<and> a \<noteq> CHR ''0''
      | [a, b] \<Rightarrow>
          (a = CHR ''1'' \<and> (b = CHR ''0'' \<or> b = CHR ''1'' \<or> b = CHR ''2''))
          \<or> (a = CHR ''0'' \<and> isdigit b \<and> b \<noteq> CHR ''0'')
      | _ \<Rightarrow> False)"

definition matches_Y :: "string \<Rightarrow> bool" where
  \<comment> \<open>The directive \<open>%Y\<close>: exactly four digits.\<close>
  "matches_Y s = (length s = 4 \<and> list_all isdigit s)"

definition leap_year :: "nat \<Rightarrow> bool" where
  "leap_year y = (y mod 4 = 0 \<and> (y mod 100 \<noteq> 0 \<or> y mod 400 = 0))"

definition days_in_month :: "nat \<Rightarrow> nat \<Rightarrow> nat" where
  "days_in_month y m =
     (if m = 2 then (if leap_year y then 29 else 28)
      else if m \<in> {4, 6, 9, 11} then 30 else 31)"

definition in_timestamp_range :: "nat \<times> nat \<times> nat \<Rightarrow> bool" where
  \<comment> \<open>pandas 2 keeps a parsed timestamp as 64-bit nanoseconds since 1970: midnight of a
      day is representable from 1677-09-22 to 2262-04-11, and \<open>errors='coerce'\<close> turns a
      day outside these bounds into \<open>NaT\<close>.\<close>
  "in_timestamp_range ymd = ((1677, 9, 22) \<le> ymd \<and> ymd \<le> (2262, 4, 11))"

definition dmy_parts :: "string \<Rightarrow> string \<times> string \<times> string" where
  \<comment> \<open>The text cut at its first two dashes.\<close>
  "dmy_parts s =
     (let d_txt = takeWhile (\<lambda>c. c \<noteq> CHR ''-'') s;
          rest = drop (Suc (length d_txt)) s;
          m_txt = takeWhile (\<lambda>c. c \<noteq> CHR ''-'') rest;
          y_txt = drop (Suc (length m_txt)) rest
      in (d_txt, m_txt, y_txt))"

definition matches_dmy :: "string \<Rightarrow> bool" where
  \<comment> \<open>The whole text matches the format \<open>%d-%m-%Y\<close>: day, dash, month, dash, year.\<close>
  "matches_dmy s =
     (case dmy_parts s of
        (d_txt, m_txt, y_txt) \<Rightarrow>
          s = d_txt @ ''-'' @ m_txt @ ''-'' @ y_txt
          \<and> matches_d d_txt \<and> matches_m m_txt \<and> matches_Y y_txt)"

definition strptime_dmy :: "string \<Rightarrow> (nat \<times> nat \<times> nat) option" where
  \<comment> \<open>One element of \<open>pd.to_datetime(series, format='%d-%m-%Y', errors='coerce')\<close>: the
      whole text must match the format, name a day of the calendar, and lie inside the
      timestamp range; \<open>None\<close> is \<open>NaT\<close>. The result is (year, month, day).\<close>
  "strptime_dmy s =
     (case dmy_parts s of
        (d_txt, m_txt, y_txt) \<Rightarrow>
          (let d = int_of_digits (filter isdigit d_txt);
               m = int_of_digits m_txt;
               y = int_of_digits y_txt
           in if matches_dmy s
                 \<and> 1 \<le> y \<and> d \<le> days_in_month y m \<and> in_timestamp_range (y, m, d)
              then Some (y, m, d) else None))"

definition to_datetime :: "cell \<Rightarrow> (nat \<times> nat \<times> nat) option" where
  "to_datetime v = (if v = NaN then None else strptime_dmy (cell_str v))"

definition strftime_ymd :: "(nat \<times> nat \<times> nat) option \<Rightarrow> cell" where
  \<comment> \<open>\<open>.dt.strftime('%Y-%m-%d')\<close>; \<open>NaT\<close> comes out as a missing value.\<close>
  "strftime_ymd t =
     (case t of
        None \<Rightarrow> NaN
      | Some (y, m, d) \<Rightarrow>
          Str (zfill 4 (str_nat y) @ ''-'' @ zfill 2 (str_nat m) @ ''-'' @ zfill 2 (str_nat d)))"

definition convert_dates :: "dataframe \<Rightarrow> error + dataframe" where
  \<comment> \<open>The two assignments to \<open>df['date']\<close> in one step: parse, then print.\<close>
  "convert_dates df =
     bind_err (getitem df ''date'') (\<lambda>date.
       Inr (setitem df ''date'' (map (\<lambda>v. strftime_ymd (to_datetime v)) date)))"

definition validate_pincodes :: "dataframe \<Rightarrow> error + dataframe" where
  \<comment> \<open>\<open>df['pincode'].astype(str).str.zfill(6)\<close>; the cast leaves a column of texts.\<close>
  "validate_pincodes df =
     bind_err (getitem df ''pincode'') (\<lambda>pincode.
       Inr (setitem df ''pincode'' (map (str_method (zfill 6)) (astype_str pincode))))"

section \<open>Sorting\<close>

fun merge_by :: "('a \<Rightarrow> 'k::linorder) \<Rightarrow> 'a list \<Rightarrow> 'a list \<Rightarrow> 'a list" where
  "merge_by key [] ys = ys"
| "merge_by key xs [] = xs"
| "merge_by key (x # xs) (y # ys) =
     (if key x \<le> key y then x # merge_by key xs (y # ys) else y # merge_by key (x # xs) ys)"

fun mergesort_by :: "('a \<Rightarrow> 'k::linorder) \<Rightarrow> 'a list \<Rightarrow> 'a list" where
  \<comment> \<open>\<open>kind="mergesort"\<close>: on equal keys the element of the left half goes first.\<close>
  "mergesort_by key xs =
     (if length xs \<le> 1 then xs
      else merge_by key (mergesort_by key (take (length xs div 2) xs))
                        (mergesort_by key (drop (length xs div 2) xs)))"

declare mergesort_by.simps [simp del]

definition cell_key :: "cell \<Rightarrow> nat \<times> int \<times> string" where
  \<comment> \<open>Ascending order within one column, \<open>na_position='last'\<close>: numbers by value, then
      texts by code points, missing values after everything else.\<close>
  "cell_key v =
     (case v of
        Num i \<Rightarrow> (0, i, [])
      | Float i \<Rightarrow> (0, i, [])
      | Str s \<Rightarrow> (1, 0, s)
      | NaN \<Rightarrow> (2, 0, []))"

definition row_key :: "nat list \<Rightarrow> cell list \<Rightarrow> (nat \<times> int \<times> string) list" where
  "row_key is r = map (\<lambda>i. cell_key (r ! i)) is"

definition sort_values :: "dataframe \<Rightarrow> string list \<Rightarrow> error + dataframe" where
  \<comment> \<open>\<open>df.sort_values(by=..., ascending=[True, ...], kind="mergesort")\<close> followed by
      \<open>reset_index(drop=True)\<close>. With several keys pandas sorts the codes of each key
      column, so a column of numbers and texts is ordered too, and does not raise.\<close>
  "sort_values df by =
     bind_err (lookup_all (columns df) by) (\<lambda>is.
       Inr (df\<lparr>rows := mergesort_by (row_key is) (rows df)\<rparr>))"

definition sort_cols :: "string list" where
  "sort_cols = [''date'', ''state'', ''district'']"

definition sort_key_of :: "string list \<Rightarrow> cell list \<Rightarrow> (nat \<times> int \<times> string) list" where
  \<comment> \<open>The composite key of a row: its date, state and district cells, in this order.\<close>
  "sort_key_of cols r = map (\<lambda>c. cell_key (cell_at cols c r)) sort_cols"

definition reorder_columns :: "dataframe \<Rightarrow> error + dataframe" where
  "reorder_columns df =
     select_columns df
       (filter (\<lambda>c. c \<noteq> ''state_original'') (columns df) @ [''state_original''])"

section \<open>Splitting and saving\<close>

text \<open>
  The file system is a map from paths to the tables written there by
  \<open>to_csv(index=False)\<close>. The size of a file in megabytes, a floating-point number
  derived from the serialised text, is left out of the file information.
\<close>

type_synonym filesystem = "string \<rightharpoonup> dataframe"

record file_info =
  file_path :: string
  nrows :: nat

definition EXCEL_MAX_ROWS :: int where
  "EXCEL_MAX_ROWS = 1048576"

definition slice_bound :: "nat \<Rightarrow> int \<Rightarrow> nat" where
  \<comment> \<open>A slice bound on a sequence of length \<open>n\<close>: negative bounds count from the end, and
      every bound is clipped to the sequence.\<close>
  "slice_bound n i = (if i < 0 then nat (max 0 (int n + i)) else min (nat i) n)"

definition iloc :: "dataframe \<Rightarrow> int \<Rightarrow> int \<Rightarrow> dataframe" where
  \<comment> \<open>\<open>df.iloc[start:end]\<close>.\<close>
  "iloc df start_idx end_idx =
     (let s = slice_bound (length (rows df)) start_idx;
          e = slice_bound (length (rows df)) end_idx
      in df\<lparr>rows := take (e - s) (drop s (rows df))\<rparr>)"

definition part_file :: "string \<Rightarrow> int \<Rightarrow> string" where
  \<comment> \<open>\<open>f"{output_base}_part{n}.csv"\<close>.\<close>
  "part_file output_base n = output_base @ ''_part'' @ py_str n @ ''.csv''"

definition save_part ::
  "dataframe \<Rightarrow> string \<Rightarrow> int \<Rightarrow> nat \<Rightarrow> file_info list \<times> filesystem \<Rightarrow> file_info list \<times> filesystem" where
  \<comment> \<open>The body of the loop over \<open>range(num_parts)\<close>.\<close>
  "save_part df output_base max_rows i st =
     (let start_idx = int i * max_rows;
          end_idx = min ((int i + 1) * max_rows) (int (length (rows df)));
          part_df = iloc df start_idx end_idx;
          output_file = part_file output_base (int i + 1)
      in (fst st @ [\<lparr>file_path = output_file, nrows = length (rows part_df)\<rparr>],
          (snd st)(output_file \<mapsto> part_df)))"

definition split_and_save ::
  "dataframe \<Rightarrow> string \<Rightarrow> int \<Rightarrow> filesystem \<Rightarrow> (error + file_info list) \<times> filesystem" where
  "split_and_save df output_base max_rows fs =
     (let total_rows = int (length (rows df))
      in if total_rows \<le> max_rows then
           (let output_file = output_base @ ''_part1.csv''
            in (Inr [\<lparr>file_path = output_file, nrows = nat total_rows\<rparr>], fs(output_file \<mapsto> df)))
         else if max_rows = 0 then (Inl ZeroDivisionError, fs)
         else
           (let num_parts = total_rows div max_rows + (if total_rows mod max_rows \<noteq> 0 then 1 else 0);
                st = fold (save_part df output_base max_rows) [0..<nat num_parts] ([], fs)
            in (Inr (fst st), snd st)))"

section \<open>The pipeline for one dataset\<close>

record stats =
  dataset :: string
  original_rows :: nat
  duplicates_removed :: nat
  invalid_states :: nat
  final_rows :: nat
  unique_states :: nat
  files_info :: "file_info list"

definition format_and_sort :: "dataframe \<Rightarrow> error + dataframe" where
  \<comment> \<open>What \<open>clean_dataset\<close> does to the frame between counting the invalid states and
      saving: district, date, pincode, sort, column order.\<close>
  "format_and_sort df =
     bind_err (standardize_districts df) (\<lambda>df2.
       bind_err (convert_dates df2) (\<lambda>df3.
         bind_err (validate_pincodes df3) (\<lambda>df4.
           bind_err (sort_values df4 sort_cols) reorder_columns)))"

definition clean_frame :: "dataframe \<Rightarrow> error + dataframe" where
  \<comment> \<open>The frame \<open>clean_dataset\<close> hands to \<open>split_and_save\<close>, from the concatenated input.\<close>
  "clean_frame df = bind_err (standardize_states (drop_duplicates df)) format_and_sort"

definition count_invalid :: "dataframe \<Rightarrow> nat" where
  \<comment> \<open>\<open>(df['state'] == 'INVALID').sum()\<close>.\<close>
  "count_invalid df =
     (case getitem df ''state'' of
        Inr state \<Rightarrow> length (filter (\<lambda>v. v = Str ''INVALID'') state)
      | Inl e \<Rightarrow> 0)"

definition nunique :: "cell list \<Rightarrow> nat" where
  "nunique vs = length (remdups (filter (\<lambda>v. v \<noteq> NaN) vs))"

definition clean_dataset ::
  "dataframe list \<Rightarrow> string \<Rightarrow> string \<Rightarrow> filesystem \<Rightarrow> (error + stats) \<times> filesystem" where
  \<comment> \<open>The first argument is the list of frames read from the CSV files that
      \<open>glob\<close> finds under \<open>input_dir\<close>, in the order found.\<close>
  "clean_dataset csv_frames output_base dataset_name fs =
     (case pd_concat csv_frames of
        Inl e \<Rightarrow> (Inl e, fs)
      | Inr df \<Rightarrow>
          (let df_dedup = drop_duplicates df
           in case standardize_states df_dedup of
                Inl e \<Rightarrow> (Inl e, fs)
              | Inr df1 \<Rightarrow>
                  (let invalid_count = count_invalid df1
                   in case format_and_sort df1 of
                        Inl e \<Rightarrow> (Inl e, fs)
                      | Inr cleaned \<Rightarrow>
                          (case split_and_save cleaned output_base EXCEL_MAX_ROWS fs of
                             (Inl e, fs') \<Rightarrow> (Inl e, fs')
                           | (Inr infos, fs') \<Rightarrow>
                               (Inr \<lparr>dataset = dataset_name,
                                     original_rows = length (rows df),
                                     duplicates_removed = length (rows df) - length (rows df_dedup),
                                     invalid_states = invalid_count,
                                     final_rows = length (rows cleaned),
                                     unique_states =
                                       (case getitem cleaned ''state'' of
                                          Inr state \<Rightarrow> nunique state | Inl e \<Rightarrow> 0),
                                     files_info = infos\<rparr>, fs')))))"


section \<open>Properties of the state name standardization\<close>

lemma isspace_lower_char: "isspace (lower_char c) = isspace c"
  by (auto simp: isspace_def lower_char_def isupper_def)

lemma dropWhile_all: "list_all P xs \<Longrightarrow> dropWhile P (xs @ ys) = dropWhile P ys"
  by (induction xs) auto

lemma strip_padded:
  assumes "list_all isspace ws1" "list_all isspace ws2" "s \<noteq> []"
    "\<not> isspace (hd s)" "\<not> isspace (last s)"
  shows "strip (ws1 @ s @ ws2) = s"
proof -
  have a: "dropWhile isspace (ws1 @ s @ ws2) = s @ ws2"
    using assms by (cases s) (simp_all add: dropWhile_all)
  have "dropWhile isspace (rev ws2 @ rev s) = dropWhile isspace (rev s)"
    using assms(2) by (simp add: dropWhile_all list_all_iff)
  also have "\<dots> = rev s"
    using assms(3,5) by (cases "rev s") (auto simp: last_rev hd_rev dest: arg_cong[where f=hd])
  finally show ?thesis by (simp add: strip_def a)
qed

lemma keys_distinct: "distinct (map fst STATE_MAPPING)" by code_simp
lemma keys_trimmed: "list_all (\<lambda>p. fst p \<noteq> [] \<and> \<not> isspace (hd (fst p)) \<and> \<not> isspace (last (fst p))) STATE_MAPPING"
  by code_simp
lemma tables_disjoint: "list_all (\<lambda>k. map_of STATE_MAPPING k = None) INVALID_STATES" by code_simp
lemma official_names_36: "distinct OFFICIAL_NAMES \<and> length OFFICIAL_NAMES = 36" by code_simp

lemma standardize_state_cases:
  "standardize_state v =
     (if v = NaN \<or> lower (strip (cell_str v)) \<in> set INVALID_STATES then ''INVALID''
      else case map_of STATE_MAPPING (lower (strip (cell_str v))) of
             Some official \<Rightarrow> official | None \<Rightarrow> ''INVALID'')"
  by (simp add: standardize_state_def Let_def)

lemma mapping_lookup:
  "(k, official) \<in> set STATE_MAPPING \<Longrightarrow>
     map_of STATE_MAPPING k = Some official \<and> k \<notin> set INVALID_STATES"
proof -
  assume m: "(k, official) \<in> set STATE_MAPPING"
  then have s: "map_of STATE_MAPPING k = Some official"
    using keys_distinct by simp
  have "k \<notin> set INVALID_STATES"
  proof
    assume "k \<in> set INVALID_STATES"
    then have "map_of STATE_MAPPING k = None"
      using tables_disjoint by (simp add: list_all_iff)
    with s show False by simp
  qed
  with s show ?thesis by simp
qed

lemma official_range: "map_of STATE_MAPPING k = Some official \<Longrightarrow> official \<in> set OFFICIAL_NAMES"
  by (auto simp: OFFICIAL_NAMES_def dest!: map_of_SomeD intro: rev_image_eqI)

lemma case_variant_padded:
  assumes m: "(k, official) \<in> set STATE_MAPPING" and l: "lower s = k"
    and w: "list_all isspace ws1" "list_all isspace ws2"
  shows "standardize_state (Str (ws1 @ s @ ws2)) = official"
proof -
  from m keys_trimmed have k: "k \<noteq> []" "\<not> isspace (hd k)" "\<not> isspace (last k)"
    by (auto simp: list_all_iff)
  from k(1) l have s: "s \<noteq> []" by (auto simp: lower_def)
  with l have "hd k = lower_char (hd s)" "last k = lower_char (last s)"
    by (auto simp: lower_def hd_map last_map)
  with k have "\<not> isspace (hd s)" "\<not> isspace (last s)"
    by (simp_all add: isspace_lower_char)
  with w s have "strip (ws1 @ s @ ws2) = s" by (simp add: strip_padded)
  with l mapping_lookup[OF m] show ?thesis
    by (simp add: standardize_state_cases cell_str_def)
qed

text \<open>
  Claim C1. \<open>standardize_state\<close> is a total function of the value it is given. A
  missing value gives \<open>INVALID\<close>. Otherwise, with \<open>k\<close> the stripped and lower-cased
  text of the value: \<open>INVALID\<close> when \<open>k\<close> is in the exclusion set or is no key of the
  mapping table, and the table's official name when \<open>k\<close> is a key. Hence a known variant
  in any casing, with any blanks around it, gives the one official name of that variant;
  the blanks are all those of \<open>str.isspace\<close> in the range of the characters, the no-break
  space and the next-line control among them. The result is always one of the 36 official
  names or \<open>INVALID\<close>.
\<close>

theorem standardize_state_spec:
  "standardize_state NaN = ''INVALID''
   \<and> (v \<noteq> NaN \<and> (lower (strip (cell_str v)) \<in> set INVALID_STATES
                  \<or> lower (strip (cell_str v)) \<notin> fst ` set STATE_MAPPING)
        \<longrightarrow> standardize_state v = ''INVALID'')
   \<and> (v \<noteq> NaN \<and> (lower (strip (cell_str v)), official) \<in> set STATE_MAPPING
        \<longrightarrow> standardize_state v = official)
   \<and> ((k, name) \<in> set STATE_MAPPING \<and> lower s = k \<and> list_all isspace ws1 \<and> list_all isspace ws2
        \<longrightarrow> standardize_state (Str (ws1 @ s @ ws2)) = name)
   \<and> standardize_state v \<in> set OFFICIAL_NAMES \<union> {''INVALID''}
   \<and> distinct OFFICIAL_NAMES \<and> length OFFICIAL_NAMES = 36"
proof (intro conjI impI)
  show "standardize_state NaN = ''INVALID''"
    by (simp add: standardize_state_cases)
next
  assume a: "v \<noteq> NaN \<and> (lower (strip (cell_str v)) \<in> set INVALID_STATES
                  \<or> lower (strip (cell_str v)) \<notin> fst ` set STATE_MAPPING)"
  then show "standardize_state v = ''INVALID''"
    by (auto simp: standardize_state_cases map_of_eq_None_iff split: option.splits dest: map_of_SomeD intro: rev_image_eqI)
next
  assume "v \<noteq> NaN \<and> (lower (strip (cell_str v)), official) \<in> set STATE_MAPPING"
  then show "standardize_state v = official"
    using mapping_lookup[of "lower (strip (cell_str v))" official]
    by (simp add: standardize_state_cases)
next
  assume "(k, name) \<in> set STATE_MAPPING \<and> lower s = k \<and> list_all isspace ws1 \<and> list_all isspace ws2"
  then show "standardize_state (Str (ws1 @ s @ ws2)) = name"
    using case_variant_padded [of k name s ws1 ws2] by blast
next
  show "standardize_state v \<in> set OFFICIAL_NAMES \<union> {''INVALID''}"
    by (auto simp: standardize_state_cases official_range split: option.splits)
next
  show "distinct OFFICIAL_NAMES" using official_names_36 by simp
next
  show "length OFFICIAL_NAMES = 36" using official_names_36 by simp
qed

theorem standardize_state_spec_witness:
  "standardize_state (Str ''  West  BENGAL  '') = ''West Bengal''
   \<and> standardize_state (Str ''wEST bengli'') = ''West Bengal''
   \<and> standardize_state (Str (CHR 0xA0 # ''Delhi'')) = ''Delhi''
   \<and> standardize_state (Str ([CHR 0x85, CHR 0x09] @ ''TAMIL nadu'' @ [CHR 0x0A, CHR 0xA0])) = ''Tamil Nadu''
   \<and> standardize_state (Str '' Nagpur'') = ''INVALID''
   \<and> standardize_state (Str ''Atlantis'') = ''INVALID''"
proof -
  have h1: "(''west  bengal'', ''West Bengal'') \<in> set STATE_MAPPING
      \<and> lower ''West  BENGAL'' = ''west  bengal'' \<and> list_all isspace ''  '' \<and> list_all isspace ''  ''"
    by code_simp
  have h2: "Str ''wEST bengli'' \<noteq> NaN
      \<and> (lower (strip (cell_str (Str ''wEST bengli''))), ''West Bengal'') \<in> set STATE_MAPPING"
    by code_simp
  have h3: "Str '' Nagpur'' \<noteq> NaN \<and> lower (strip (cell_str (Str '' Nagpur''))) \<in> set INVALID_STATES"
    by code_simp
  have h4: "Str ''Atlantis'' \<noteq> NaN
      \<and> lower (strip (cell_str (Str ''Atlantis''))) \<notin> fst ` set STATE_MAPPING"
    by code_simp
  have h5: "Str (CHR 0xA0 # ''Delhi'') \<noteq> NaN
      \<and> (lower (strip (cell_str (Str (CHR 0xA0 # ''Delhi'')))), ''Delhi'') \<in> set STATE_MAPPING"
    by code_simp
  have h6: "(''tamil nadu'', ''Tamil Nadu'') \<in> set STATE_MAPPING
      \<and> lower ''TAMIL nadu'' = ''tamil nadu''
      \<and> list_all isspace [CHR 0x85, CHR 0x09] \<and> list_all isspace [CHR 0x0A, CHR 0xA0]"
    by code_simp
  show ?thesis
    using h1 h2 h3 h4 h5 h6
      standardize_state_spec [of "Str ''wEST bengli''" "''West Bengal''" "''west  bengal''" "''West Bengal''"
          "''West  BENGAL''" "''  ''" "''  ''"]
      standardize_state_spec [of "Str '' Nagpur''"]
      standardize_state_spec [of "Str ''Atlantis''"]
      standardize_state_spec [of "Str (CHR 0xA0 # ''Delhi'')" "''Delhi''" "''tamil nadu''" "''Tamil Nadu''"
          "''TAMIL nadu''" "[CHR 0x85, CHR 0x09]" "[CHR 0x0A, CHR 0xA0]"]
    by simp
qed

section \<open>Frames, columns and first occurrences\<close>

lemma index_of_Some: "index_of x xs = Some i \<Longrightarrow> i < length xs \<and> xs ! i = x"
  by (induction xs arbitrary: i) (auto split: if_splits)

lemma index_of_None: "index_of x xs = None \<longleftrightarrow> x \<notin> set xs"
  by (induction xs) auto

lemma index_of_mem: "x \<in> set xs \<Longrightarrow> \<exists>i. index_of x xs = Some i"
  using index_of_None [of x xs] by (cases "index_of x xs") auto

lemma index_of_neq:
  "index_of x xs = Some i \<Longrightarrow> index_of y xs = Some j \<Longrightarrow> x \<noteq> y \<Longrightarrow> i \<noteq> j"
  using index_of_Some [of x xs i] index_of_Some [of y xs j] by auto

lemma index_of_append_old: "index_of x xs = Some i \<Longrightarrow> index_of x (xs @ ys) = Some i"
  by (induction xs arbitrary: i) (auto split: if_splits)

lemma index_of_append_new: "x \<notin> set xs \<Longrightarrow> index_of x (xs @ [x]) = Some (length xs)"
  by (induction xs) auto

lemma first_occurrences_seen:
  "set seen = set seen' \<Longrightarrow> first_occurrences seen xs = first_occurrences seen' xs"
proof (induction xs arbitrary: seen seen')
  case Nil
  show ?case by simp
next
  case (Cons x xs)
  from Cons.prems have "set (x # seen) = set (x # seen')" by simp
  from Cons.IH [OF this] Cons.IH [OF Cons.prems] Cons.prems show ?case by simp
qed


lemma first_occurrences_set: "set (first_occurrences seen xs) = set xs - set seen"
  by (induction xs arbitrary: seen) auto



lemma first_occurrences_fixed:
  "distinct xs \<Longrightarrow> set xs \<inter> set seen = {} \<Longrightarrow> first_occurrences seen xs = xs"
  by (induction xs arbitrary: seen) auto



lemma digit_chars:
  "digit_char 0 = CHR ''0''" "digit_char 1 = CHR ''1''" "digit_char 2 = CHR ''2''"
  "digit_char 3 = CHR ''3''" "digit_char 4 = CHR ''4''" "digit_char 5 = CHR ''5''"
  "digit_char 6 = CHR ''6''" "digit_char 7 = CHR ''7''" "digit_char 8 = CHR ''8''"
  "digit_char 9 = CHR ''9''" "digit_char (Suc 0) = CHR ''1''"
  by code_simp+

lemma str_nat_numeral:
  "str_nat (numeral k) =
     (if numeral k < (10::nat) then [digit_char (numeral k)]
      else str_nat (numeral k div 10) @ [digit_char (numeral k mod 10)])"
  by (rule str_nat.simps)

lemma str_nat_small: "str_nat 0 = ''0''" "str_nat 1 = ''1''" "str_nat (Suc 0) = ''1''"
  by (simp_all add: str_nat.simps digit_chars)

lemmas py_str_eval = py_str_def str_nat_numeral str_nat_small digit_chars

lemma map2_same: "map2 F xs (map h xs) = map (\<lambda>x. F x (h x)) xs"
  by (induction xs) auto

lemma setitem_old:
  "index_of c (columns df) = Some j \<Longrightarrow>
     setitem df c (map h (rows df)) = df\<lparr>rows := map (\<lambda>r. r[j := h r]) (rows df)\<rparr>"
  by (simp add: setitem_def map2_same)

lemma setitem_new:
  "index_of c (columns df) = None \<Longrightarrow>
     setitem df c (map h (rows df)) =
       df\<lparr>columns := columns df @ [c], rows := map (\<lambda>r. r @ [h r]) (rows df)\<rparr>"
  by (simp add: setitem_def map2_same)

lemma getitem_Inr:
  "getitem df c = Inr vs \<longleftrightarrow>
     (\<exists>j. index_of c (columns df) = Some j \<and> vs = map (\<lambda>r. r ! j) (rows df))"
  by (auto simp: getitem_def split: option.splits)

lemma getitem_cell_at:
  "getitem df c = Inr vs \<Longrightarrow> vs = map (cell_at (columns df) c) (rows df)"
  by (auto simp: getitem_def cell_at_def split: option.splits)

lemma cell_at_update:
  assumes "index_of c cols = Some j" and "length r = length cols"
  shows "cell_at cols c' (r[j := v]) = (if c' = c then v else cell_at cols c' r)"
proof (cases "c' = c")
  case True
  with assms index_of_Some [OF assms(1)] show ?thesis by (simp add: cell_at_def)
next
  case False
  show ?thesis
  proof (cases "index_of c' cols")
    case None
    with False show ?thesis by (simp add: cell_at_def)
  next
    case (Some j')
    with index_of_neq [OF Some assms(1) False] False show ?thesis by (simp add: cell_at_def)
  qed
qed

lemma cell_at_append:
  assumes "index_of c cols = None" and "length r = length cols"
  shows "cell_at (cols @ [c]) c' (r @ [v]) = (if c' = c then v else cell_at cols c' r)"
proof (cases "c' = c")
  case True
  from assms(1) have "c \<notin> set cols" by (simp add: index_of_None)
  with True assms(2) [symmetric] show ?thesis by (simp add: cell_at_def index_of_append_new)
next
  case False
  show ?thesis
  proof (cases "index_of c' cols")
    case None
    then have "c' \<notin> set (cols @ [c])" using False by (simp add: index_of_None)
    then have "index_of c' (cols @ [c]) = None" using index_of_None [of c' "cols @ [c]"] by blast
    with None False show ?thesis by (simp add: cell_at_def)
  next
    case (Some j')
    with index_of_Some [OF Some] assms(2) False show ?thesis
      by (simp add: cell_at_def index_of_append_old nth_append)
  qed
qed

lemma lookup_all_Inr:
  "lookup_all cols cs = Inr is \<Longrightarrow> is = map (\<lambda>c. the (index_of c cols)) cs \<and> set cs \<subseteq> set cols"
proof (induction cs arbitrary: "is")
  case Nil
  then show ?case by simp
next
  case (Cons c cs)
  then obtain j js where j: "index_of c cols = Some j" and js: "lookup_all cols cs = Inr js"
    and e: "is = j # js"
    by (auto simp: bind_err_def split: option.splits sum.splits)
  from j have "c \<in> set cols" using index_of_None [of c cols] by auto
  with Cons.IH [OF js] j e show ?case by simp
qed

lemma lookup_all_ok: "set cs \<subseteq> set cols \<Longrightarrow> lookup_all cols cs = Inr (map (\<lambda>c. the (index_of c cols)) cs)"
proof (induction cs)
  case Nil
  show ?case by simp
next
  case (Cons c cs)
  then obtain j where "index_of c cols = Some j" using index_of_mem [of c cols] by auto
  with Cons show ?case by (simp add: bind_err_def)
qed

lemma lookup_all_KeyError: "\<not> set cs \<subseteq> set cols \<Longrightarrow> \<exists>c. lookup_all cols cs = Inl (KeyError c)"
proof (induction cs)
  case Nil
  then show ?case by simp
next
  case (Cons c cs)
  show ?case
  proof (cases "index_of c cols")
    case None
    then show ?thesis by simp
  next
    case (Some j)
    then have "c \<in> set cols" using index_of_None [of c cols] by auto
    with Cons.prems have "\<not> set cs \<subseteq> set cols" by simp
    from Cons.IH [OF this] Some show ?thesis by (auto simp: bind_err_def)
  qed
qed

lemma cell_at_select:
  assumes "set cs \<subseteq> set cols"
  shows "cell_at cs c (map (\<lambda>c. r ! the (index_of c cols)) cs) =
     (if c \<in> set cs then cell_at cols c r else NaN)"
proof (cases "index_of c cs")
  case None
  moreover from None have "c \<notin> set cs" by (simp add: index_of_None)
  ultimately show ?thesis by (simp add: cell_at_def)
next
  case (Some j)
  with index_of_Some [OF Some] have m: "c \<in> set cs" by auto
  with assms obtain i where "index_of c cols = Some i" using index_of_mem [of c cols] by auto
  with m Some index_of_Some [OF Some] show ?thesis
    by (auto simp: cell_at_def)
qed

section \<open>Merge sort is a stable sort\<close>

lemma merge_by_mset: "mset (merge_by key xs ys) = mset xs + mset ys"
  by (induction key xs ys rule: merge_by.induct) simp_all

lemma merge_by_set: "set (merge_by key xs ys) = set xs \<union> set ys"
  using merge_by_mset [of key xs ys] by (metis set_mset_mset set_mset_union)

lemma merge_by_sorted:
  "sorted (map key xs) \<Longrightarrow> sorted (map key ys) \<Longrightarrow> sorted (map key (merge_by key xs ys))"
  by (induction key xs ys rule: merge_by.induct) (auto simp: merge_by_set)

lemma filter_above_empty:
  "sorted (map key (x # xs)) \<Longrightarrow> k < key x \<Longrightarrow> filter (\<lambda>z. key z = k) (x # xs) = []"
  by (auto simp: filter_empty_conv)

lemma merge_by_stable:
  "sorted (map key xs) \<Longrightarrow> sorted (map key ys) \<Longrightarrow>
     filter (\<lambda>z. key z = k) (merge_by key xs ys)
       = filter (\<lambda>z. key z = k) xs @ filter (\<lambda>z. key z = k) ys"
proof (induction key xs ys rule: merge_by.induct)
  case (1 key ys)
  show ?case by simp
next
  case (2 key v va)
  show ?case by simp
next
  case (3 key x xs y ys)
  show ?case
  proof (cases "key x \<le> key y")
    case True
    with 3 show ?thesis by simp
  next
    case False
    from 3 False
    have ih: "filter (\<lambda>z. key z = k) (merge_by key (x # xs) ys)
       = filter (\<lambda>z. key z = k) (x # xs) @ filter (\<lambda>z. key z = k) ys"
      by simp
    show ?thesis
    proof (cases "key y = k")
      case True
      with False have "k < key x" by simp
      from filter_above_empty [OF "3.prems"(1) this]
      have "filter (\<lambda>z. key z = k) (x # xs) = []" .
      with ih False True show ?thesis by simp
    next
      case no: False
      with ih False show ?thesis by simp
    qed
  qed
qed

lemma mergesort_by_mset: "mset (mergesort_by key xs) = mset xs"
proof (induction key xs rule: mergesort_by.induct)
  case (1 key xs)
  show ?case
  proof (cases "length xs \<le> 1")
    case True
    then show ?thesis by (simp add: mergesort_by.simps [of key xs])
  next
    case False
    with 1 have "mset (mergesort_by key xs)
        = mset (take (length xs div 2) xs) + mset (drop (length xs div 2) xs)"
      by (simp add: mergesort_by.simps [of key xs] merge_by_mset)
    also have "\<dots> = mset (take (length xs div 2) xs @ drop (length xs div 2) xs)"
      by (simp only: mset_append)
    finally show ?thesis by simp
  qed
qed

lemma mergesort_by_sorted: "sorted (map key (mergesort_by key xs))"
proof (induction key xs rule: mergesort_by.induct)
  case (1 key xs)
  show ?case
  proof (cases "length xs \<le> 1")
    case True
    then have "mergesort_by key xs = xs" by (simp add: mergesort_by.simps [of key xs])
    moreover from True have "sorted (map key xs)" by (cases xs) simp_all
    ultimately show ?thesis by simp
  next
    case False
    with 1 show ?thesis
      by (simp add: mergesort_by.simps [of key xs] merge_by_sorted)
  qed
qed

lemma mergesort_by_stable:
  "filter (\<lambda>z. key z = k) (mergesort_by key xs) = filter (\<lambda>z. key z = k) xs"
proof (induction key xs rule: mergesort_by.induct)
  case (1 key xs)
  show ?case
  proof (cases "length xs \<le> 1")
    case True
    then show ?thesis by (simp add: mergesort_by.simps [of key xs])
  next
    case False
    with 1 have "filter (\<lambda>z. key z = k) (mergesort_by key xs)
        = filter (\<lambda>z. key z = k) (take (length xs div 2) xs)
          @ filter (\<lambda>z. key z = k) (drop (length xs div 2) xs)"
      by (simp add: mergesort_by.simps [of key xs] merge_by_stable mergesort_by_sorted)
    also have "\<dots> = filter (\<lambda>z. key z = k) (take (length xs div 2) xs @ drop (length xs div 2) xs)"
      by (simp only: filter_append)
    finally show ?thesis by simp
  qed
qed

lemma mergesort_by_sort_key: "mergesort_by key xs = sort_key key xs"
proof (rule properties_for_sort_key [symmetric])
  show "mset (mergesort_by key xs) = mset xs" by (rule mergesort_by_mset)
next
  fix k
  have "(\<lambda>x. key k = key x) = (\<lambda>x. key x = key k)" by (rule ext) (rule eq_commute)
  then show "filter (\<lambda>x. key k = key x) (mergesort_by key xs) = filter (\<lambda>x. key k = key x) xs"
    by (simp only: mergesort_by_stable)
next
  show "sorted (map key (mergesort_by key xs))" by (rule mergesort_by_sorted)
qed

section \<open>Splitting and saving\<close>

lemma digit_char_inj: "a < 10 \<Longrightarrow> b < 10 \<Longrightarrow> digit_char a = digit_char b \<Longrightarrow> a = b"
proof -
  assume a: "a < 10" and b: "b < 10" and e: "digit_char a = digit_char b"
  from e have "(of_char (digit_char a) :: nat) = of_char (digit_char b)" by simp
  with a b show "a = b" by (simp add: digit_char_def)
qed

lemma str_nat_nonempty: "str_nat n \<noteq> []"
  by (subst str_nat.simps) simp

lemma str_nat_length_one: "length (str_nat n) = 1 \<longleftrightarrow> n < 10"
  using str_nat_nonempty [of "n div 10"]
  by (subst str_nat.simps) (cases "str_nat (n div 10)"; simp)

lemma str_nat_inj: "str_nat n = str_nat m \<Longrightarrow> n = m"
proof (induction n arbitrary: m rule: str_nat.induct)
  case (1 n)
  show ?case
  proof (cases "n < 10")
    case True
    with "1.prems" have "m < 10"
      using str_nat_length_one [of m] str_nat_length_one [of n] by simp
    with True "1.prems" show ?thesis
      by (simp add: str_nat.simps [of n] str_nat.simps [of m] digit_char_inj)
  next
    case False
    with "1.prems" have m: "\<not> m < 10"
      using str_nat_length_one [of m] str_nat_length_one [of n] by simp
    from False m "1.prems"
    have "str_nat (n div 10) @ [digit_char (n mod 10)] = str_nat (m div 10) @ [digit_char (m mod 10)]"
      by (simp add: str_nat.simps [of n] str_nat.simps [of m])
    then have a: "str_nat (n div 10) = str_nat (m div 10)"
      and b: "digit_char (n mod 10) = digit_char (m mod 10)" by simp_all
    from "1.IH" [OF False a] have "n div 10 = m div 10" .
    moreover from b have "n mod 10 = m mod 10" by (simp add: digit_char_inj)
    ultimately show ?thesis by (metis div_mult_mod_eq)
  qed
qed

lemma part_file_inj: "part_file base (int i + 1) = part_file base (int j + 1) \<Longrightarrow> i = j"
proof -
  assume "part_file base (int i + 1) = part_file base (int j + 1)"
  then have "str_nat (Suc i) = str_nat (Suc j)"
    by (simp add: part_file_def py_str_def nat_add_distrib)
  then show "i = j" using str_nat_inj by blast
qed

lemma py_str_1: "py_str 1 = ''1''"
  by code_simp

lemma part_file_1: "part_file base 1 = base @ ''_part1.csv''"
  by (simp add: part_file_def py_str_1)

lemma slice_bound_nat: "slice_bound n (int k) = min k n"
  by (simp add: slice_bound_def)

lemma part_rows:
  assumes "1 \<le> max_rows"
  shows "iloc df (int i * max_rows) (min ((int i + 1) * max_rows) (int (length (rows df))))
         = df\<lparr>rows := take (nat max_rows) (drop (i * nat max_rows) (rows df))\<rparr>"
proof -
  define m where "m = nat max_rows"
  define n where "n = length (rows df)"
  from assms have mx: "max_rows = int m" and m: "1 \<le> m" by (simp_all add: m_def)
  have s0: "int i * max_rows = int (i * m)" by (simp add: mx)
  have "(int i + 1) * max_rows = int ((i + 1) * m)" by (simp add: mx algebra_simps)
  then have e0: "min ((int i + 1) * max_rows) (int n) = int (min ((i + 1) * m) n)"
    by (simp only: of_nat_min)
  have t: "take (min (min ((i + 1) * m) n) n - min (i * m) n) (drop (min (i * m) n) (rows df))
        = take m (drop (i * m) (rows df))"
  proof (cases "i * m \<le> n")
    case True
    then have "min (min ((i + 1) * m) n) n - min (i * m) n = min m (n - i * m)"
      by (auto simp: min_def)
    moreover have "take (min m (length ys)) ys = take m ys" for ys :: "cell list list"
      by (cases "m \<le> length ys") (simp_all add: min_def)
    from this [of "drop (i * m) (rows df)"]
    have "take (min m (n - i * m)) (drop (i * m) (rows df)) = take m (drop (i * m) (rows df))"
      by (simp add: n_def)
    ultimately show ?thesis using True by (simp add: n_def min_absorb1)
  next
    case False
    then show ?thesis by (simp add: n_def min_def)
  qed
  have "iloc df (int (i * m)) (int (min ((i + 1) * m) n))
        = df\<lparr>rows := take m (drop (i * m) (rows df))\<rparr>"
    unfolding iloc_def Let_def slice_bound_nat n_def [symmetric] t ..
  then show ?thesis
    unfolding s0 e0 [unfolded n_def] m_def n_def .
qed

lemma ceil_div_nat:
  assumes "1 \<le> (m::nat)"
  shows "n div m + (if n mod m \<noteq> 0 then 1 else 0) = (n + m - 1) div m"
proof (cases "n mod m = 0")
  case True
  then have "m dvd n" by (simp add: mod_eq_0_iff_dvd)
  then obtain q where q: "n = q * m" unfolding dvd_def by (metis mult.commute)
  have "(q * m + m - 1) div m = q"
    by (rule div_nat_eqI) (use assms in \<open>simp_all add: algebra_simps\<close>)
  with assms q True show ?thesis by simp
next
  case False
  define q r where "q = n div m" and "r = n mod m"
  then have n: "n = q * m + r" and r: "0 < r" "r < m" using False assms by auto
  have "(n + m - 1) div m = Suc q"
    by (rule div_nat_eqI) (use r n in \<open>simp_all add: algebra_simps\<close>)
  then show ?thesis using False by (simp add: q_def)
qed

lemma num_parts_nat:
  assumes "1 \<le> m"
  shows "nat (int n div int m + (if int n mod int m \<noteq> 0 then 1 else 0)) = (n + m - 1) div m"
proof -
  have d: "int n div int m = int (n div m)" by (simp add: zdiv_int)
  have r: "int n mod int m = int (n mod m)" by (simp add: zmod_int)
  have "int n div int m + (if int n mod int m \<noteq> 0 then 1 else 0)
        = int (n div m + (if n mod m \<noteq> 0 then 1 else 0))"
    unfolding d r by simp
  then show ?thesis using ceil_div_nat [OF assms, of n] by simp
qed

lemma save_part_step:
  assumes "1 \<le> max_rows"
  shows "save_part df base max_rows i (infos, fs) =
     (infos @ [\<lparr>file_path = part_file base (int i + 1),
                nrows = length (take (nat max_rows) (drop (i * nat max_rows) (rows df)))\<rparr>],
      fs(part_file base (int i + 1) \<mapsto>
           df\<lparr>rows := take (nat max_rows) (drop (i * nat max_rows) (rows df))\<rparr>))"
  unfolding save_part_def Let_def part_rows [OF assms] by simp

lemma save_parts_infos:
  assumes "1 \<le> max_rows"
  shows "fst (fold (save_part df base max_rows) [0..<k] (infos, fs)) =
     infos @ map (\<lambda>i. \<lparr>file_path = part_file base (int i + 1),
                nrows = length (take (nat max_rows) (drop (i * nat max_rows) (rows df)))\<rparr>) [0..<k]"
proof (induction k)
  case 0
  show ?case by simp
next
  case (Suc k)
  obtain a b where ab: "fold (save_part df base max_rows) [0..<k] (infos, fs) = (a, b)"
    by (cases "fold (save_part df base max_rows) [0..<k] (infos, fs)")
  with Suc show ?case by (simp add: save_part_step [OF assms])
qed

lemma save_parts_files:
  assumes "1 \<le> max_rows" and "i < k"
  shows "snd (fold (save_part df base max_rows) [0..<k] (infos, fs)) (part_file base (int i + 1)) =
     Some (df\<lparr>rows := take (nat max_rows) (drop (i * nat max_rows) (rows df))\<rparr>)"
  using assms(2)
proof (induction k)
  case 0
  then show ?case by simp
next
  case (Suc k)
  obtain a b where ab: "fold (save_part df base max_rows) [0..<k] (infos, fs) = (a, b)"
    by (cases "fold (save_part df base max_rows) [0..<k] (infos, fs)")
  show ?case
  proof (cases "i = k")
    case True
    with ab show ?thesis by (simp add: save_part_step [OF assms(1)])
  next
    case False
    with Suc.prems have "i < k" by simp
    from Suc.IH [OF this] ab have "b (part_file base (int i + 1)) =
        Some (df\<lparr>rows := take (nat max_rows) (drop (i * nat max_rows) (rows df))\<rparr>)" by simp
    moreover from False have "part_file base (int k + 1) \<noteq> part_file base (int i + 1)"
      using part_file_inj by blast
    ultimately show ?thesis using ab by (simp add: save_part_step [OF assms(1)])
  qed
qed

lemma split_and_save_result:
  assumes "1 \<le> max_rows"
  shows "\<exists>fs'. split_and_save df base max_rows fs =
      (Inr (map (\<lambda>i. \<lparr>file_path = part_file base (int i + 1),
                 nrows = length (take (nat max_rows) (drop (i * nat max_rows) (rows df)))\<rparr>)
             [0..<(if int (length (rows df)) \<le> max_rows then 1
                   else (length (rows df) + nat max_rows - 1) div nat max_rows)]), fs')
    \<and> (\<forall>i < (if int (length (rows df)) \<le> max_rows then 1
               else (length (rows df) + nat max_rows - 1) div nat max_rows).
          fs' (part_file base (int i + 1)) =
            Some (df\<lparr>rows := take (nat max_rows) (drop (i * nat max_rows) (rows df))\<rparr>))"
proof (cases "int (length (rows df)) \<le> max_rows")
  case True
  then have "take (nat max_rows) (rows df) = rows df" by simp
  with True show ?thesis
    by (simp add: split_and_save_def Let_def part_file_1)
next
  case False
  define m where "m = nat max_rows"
  from assms have mx: "max_rows = int m" and m: "1 \<le> m" by (simp_all add: m_def)
  have np: "nat (int (length (rows df)) div max_rows
             + (if int (length (rows df)) mod max_rows \<noteq> 0 then 1 else 0))
           = (length (rows df) + m - 1) div m"
    unfolding mx by (rule num_parts_nat [OF m])
  from assms have z: "max_rows \<noteq> 0" by simp
  show ?thesis
    using False z save_parts_infos [OF assms, of df base _ "[]" fs]
      save_parts_files [OF assms, of _ _ df base "[]" fs]
    by (simp add: split_and_save_def Let_def np m_def [symmetric])
qed

lemma ceil_div_bracket:
  assumes "1 \<le> (m::nat)" and "0 < n"
  shows "((n + m - 1) div m - 1) * m < n \<and> n \<le> ((n + m - 1) div m) * m"
proof -
  define k where "k = (n + m - 1) div m"
  have a: "k * m \<le> n + m - 1" unfolding k_def by simp
  have "n + m - 1 < Suc k * m"
    unfolding k_def using assms(1) by (metis One_nat_def Suc_le_lessD dividend_less_div_times mult.commute mult_Suc)
  then have b: "n \<le> k * m" using assms by simp
  have "(k - 1) * m < n"
  proof (cases k)
    case 0
    with assms show ?thesis by simp
  next
    case (Suc j)
    with a assms show ?thesis by simp
  qed
  with b show ?thesis by (simp add: k_def)
qed

text \<open>
  Claim C3. With a cap of at least one row, a table that fits under the cap is saved as
  the single file \<open>part1\<close>; a larger table of \<open>n\<close> rows is saved as \<open>ceil(n / cap)\<close>
  files. File \<open>i + 1\<close> holds the rows from position \<open>i * cap\<close> up to, but not
  including, position \<open>(i + 1) * cap\<close>, in their order: the blocks are contiguous and do
  not overlap, none is larger than the cap and every one but the last is full. A table
  of exactly \<open>cap\<close> rows gives one file, one of \<open>cap + 1\<close> rows gives two, of \<open>cap\<close>
  rows and of one row.
\<close>

theorem split_and_save_shards:
  assumes "1 \<le> max_rows"
  shows "\<exists>infos fs'. split_and_save df base max_rows fs = (Inr infos, fs')
    \<and> (int (length (rows df)) \<le> max_rows \<longrightarrow>
          length infos = 1 \<and> file_path (hd infos) = base @ ''_part1.csv'')
    \<and> (max_rows < int (length (rows df)) \<longrightarrow>
          length infos = (length (rows df) + nat max_rows - 1) div nat max_rows
          \<and> (length infos - 1) * nat max_rows < length (rows df)
          \<and> length (rows df) \<le> length infos * nat max_rows)
    \<and> (\<forall>i<length infos.
          file_path (infos ! i) = part_file base (int i + 1)
          \<and> fs' (file_path (infos ! i)) =
              Some (df\<lparr>rows := take (nat max_rows) (drop (i * nat max_rows) (rows df))\<rparr>)
          \<and> nrows (infos ! i) = length (take (nat max_rows) (drop (i * nat max_rows) (rows df)))
          \<and> nrows (infos ! i) \<le> nat max_rows
          \<and> (Suc i < length infos \<longrightarrow> nrows (infos ! i) = nat max_rows))
    \<and> (int (length (rows df)) = max_rows \<longrightarrow> length infos = 1)
    \<and> (int (length (rows df)) = max_rows + 1 \<longrightarrow> map nrows infos = [nat max_rows, 1])"
proof -
  define m where "m = nat max_rows"
  define n where "n = length (rows df)"
  define k where "k = (if int n \<le> max_rows then 1 else (n + m - 1) div m)"
  define info where "info = (\<lambda>i. \<lparr>file_path = part_file base (int i + 1),
      nrows = length (take m (drop (i * m) (rows df)))\<rparr>)"
  from assms have mx: "max_rows = int m" and m: "1 \<le> m" by (simp_all add: m_def)
  from split_and_save_result [OF assms, of df base fs]
  obtain fs' where r: "split_and_save df base max_rows fs = (Inr (map info [0..<k]), fs')"
    and f: "\<And>i. i < k \<Longrightarrow> fs' (part_file base (int i + 1)) =
      Some (df\<lparr>rows := take m (drop (i * m) (rows df))\<rparr>)"
    unfolding m_def n_def k_def info_def by blast
  have small: "int n \<le> max_rows \<longrightarrow> length (map info [0..<k]) = 1
      \<and> file_path (hd (map info [0..<k])) = base @ ''_part1.csv''"
    by (simp add: k_def info_def part_file_1)
  have large: "max_rows < int n \<longrightarrow> length (map info [0..<k]) = (n + m - 1) div m
      \<and> (length (map info [0..<k]) - 1) * m < n \<and> n \<le> length (map info [0..<k]) * m"
  proof
    assume a: "max_rows < int n"
    then have "0 < n" using assms by simp
    from ceil_div_bracket [OF m this] a show "length (map info [0..<k]) = (n + m - 1) div m
      \<and> (length (map info [0..<k]) - 1) * m < n \<and> n \<le> length (map info [0..<k]) * m"
      by (simp add: k_def)
  qed
  have full: "nrows (info i) = m" if "Suc i < k" for i
  proof -
    from that have big: "\<not> int n \<le> max_rows" by (auto simp: k_def split: if_splits)
    then have "0 < n" using assms by simp
    from ceil_div_bracket [OF m this] big have "(k - 1) * m < n" by (simp add: k_def)
    moreover from that have "Suc i * m \<le> (k - 1) * m" by (intro mult_le_mono1) simp
    ultimately have "Suc i * m < n" by simp
    then show ?thesis by (simp add: info_def n_def)
  qed
  have each: "\<forall>i<length (map info [0..<k]).
          file_path (map info [0..<k] ! i) = part_file base (int i + 1)
          \<and> fs' (file_path (map info [0..<k] ! i)) =
              Some (df\<lparr>rows := take m (drop (i * m) (rows df))\<rparr>)
          \<and> nrows (map info [0..<k] ! i) = length (take m (drop (i * m) (rows df)))
          \<and> nrows (map info [0..<k] ! i) \<le> m
          \<and> (Suc i < length (map info [0..<k]) \<longrightarrow> nrows (map info [0..<k] ! i) = m)"
    using f full by (simp add: info_def)
  have exact: "int n = max_rows \<longrightarrow> length (map info [0..<k]) = 1"
    by (simp add: k_def)
  have plus1: "int n = max_rows + 1 \<longrightarrow> map nrows (map info [0..<k]) = [m, 1]"
  proof
    assume a: "int n = max_rows + 1"
    then have n: "n = m + 1" using mx by simp
    then have "(n + m - 1) div m = 2" using m by simp
    with a have "[0..<k] = [0, 1]" by (simp add: k_def upt_rec numeral_2_eq_2)
    then show "map nrows (map info [0..<k]) = [m, 1]"
      using n m by (simp add: info_def n_def min_def)
  qed
  show ?thesis
    unfolding m_def [symmetric] n_def [symmetric]
    by (intro exI [of _ "map info [0..<k]"] exI [of _ fs'] conjI r small large each exact plus1)
qed

theorem split_and_save_shards_witness:
  "(\<exists>infos fs'.
     split_and_save \<lparr>columns = [''pincode''], rows = [[Num 1], [Num 2], [Num 3]]\<rparr> ''b'' 2 Map.empty
       = (Inr infos, fs')
     \<and> length infos = 2 \<and> map nrows infos = [2, 1]
     \<and> map file_path infos = [''b_part1.csv'', ''b_part2.csv'']
     \<and> fs' ''b_part2.csv'' = Some \<lparr>columns = [''pincode''], rows = [[Num 3]]\<rparr>)
   \<and> (\<exists>infos fs'.
     split_and_save \<lparr>columns = [''pincode''], rows = [[Num 1], [Num 2], [Num 3]]\<rparr> ''b'' 3 Map.empty
       = (Inr infos, fs')
     \<and> length infos = 1 \<and> file_path (hd infos) = ''b_part1.csv'')"
proof -
  let ?ex = "\<lparr>columns = [''pincode''], rows = [[Num 1], [Num 2], [Num 3]]\<rparr>"
  have h: "(1::int) \<le> 2" by simp
  have p: "part_file ''b'' (int 0 + 1) = ''b_part1.csv''" "part_file ''b'' (int 1 + 1) = ''b_part2.csv''"
    by code_simp+
  from split_and_save_shards [OF h, of ?ex "''b''" Map.empty]
  obtain infos fs' where
    r: "split_and_save ?ex ''b'' 2 Map.empty = (Inr infos, fs')"
    and big: "2 < int (length (rows ?ex)) \<longrightarrow>
          length infos = (length (rows ?ex) + nat 2 - 1) div nat 2
          \<and> (length infos - 1) * nat 2 < length (rows ?ex)
          \<and> length (rows ?ex) \<le> length infos * nat 2"
    and e: "\<forall>i<length infos.
          file_path (infos ! i) = part_file ''b'' (int i + 1)
          \<and> fs' (file_path (infos ! i)) =
              Some (?ex\<lparr>rows := take (nat 2) (drop (i * nat 2) (rows ?ex))\<rparr>)
          \<and> nrows (infos ! i) = length (take (nat 2) (drop (i * nat 2) (rows ?ex)))
          \<and> nrows (infos ! i) \<le> nat 2
          \<and> (Suc i < length infos \<longrightarrow> nrows (infos ! i) = nat 2)"
    and p1: "int (length (rows ?ex)) = 2 + 1 \<longrightarrow> map nrows infos = [nat 2, 1]"
    by (elim exE conjE) (rule that)
  from big have l: "length infos = 2" by simp
  from p1 have n: "map nrows infos = [2, 1]" by simp
  from l obtain a b where ab: "infos = [a, b]"
    by (cases infos; cases "tl infos"; auto)
  from e [rule_format, of 0] e [rule_format, of 1] ab p
  have q: "map file_path infos = [''b_part1.csv'', ''b_part2.csv'']"
    "fs' ''b_part2.csv'' = Some \<lparr>columns = [''pincode''], rows = [[Num 3]]\<rparr>"
    by auto
  have first: "\<exists>infos fs'. split_and_save ?ex ''b'' 2 Map.empty = (Inr infos, fs')
     \<and> length infos = 2 \<and> map nrows infos = [2, 1]
     \<and> map file_path infos = [''b_part1.csv'', ''b_part2.csv'']
     \<and> fs' ''b_part2.csv'' = Some \<lparr>columns = [''pincode''], rows = [[Num 3]]\<rparr>"
    by (rule exI [of _ infos], rule exI [of _ fs']) (simp only: r l n q)
  have h3: "(1::int) \<le> 3" by simp
  from split_and_save_shards [OF h3, of ?ex "''b''" Map.empty]
  obtain infos3 fs3 where
    r3: "split_and_save ?ex ''b'' 3 Map.empty = (Inr infos3, fs3)"
    and small: "int (length (rows ?ex)) \<le> 3 \<longrightarrow>
          length infos3 = 1 \<and> file_path (hd infos3) = ''b'' @ ''_part1.csv''"
    by (elim exE conjE) (rule that)
  from small have s3: "length infos3 = 1" "file_path (hd infos3) = ''b_part1.csv''" by simp_all
  have second: "\<exists>infos fs'. split_and_save ?ex ''b'' 3 Map.empty = (Inr infos, fs')
     \<and> length infos = 1 \<and> file_path (hd infos) = ''b_part1.csv''"
    by (rule exI [of _ infos3], rule exI [of _ fs3]) (simp only: r3 s3)
  from first second show ?thesis by (rule conjI)
qed

lemma concat_blocks:
  "concat (map (\<lambda>i. take m (drop (i * m) xs)) [0..<k]) = take (k * m) xs"
proof (induction k)
  case 0
  show ?case by simp
next
  case (Suc k)
  have "take (k * m) xs @ take m (drop (k * m) xs) = take (k * m + m) xs"
    by (simp add: take_add)
  with Suc show ?case by (simp add: add.commute)
qed

lemma first_occurrences_append:
  "first_occurrences s (xs @ ys) = first_occurrences s xs @ first_occurrences (rev xs @ s) ys"
proof (induction xs arbitrary: s)
  case Nil
  show ?case by simp
next
  case (Cons x xs)
  have "first_occurrences (rev xs @ x # s) ys = first_occurrences (rev xs @ s) ys" if "x \<in> set s"
    using that by (intro first_occurrences_seen) auto
  with Cons show ?case by simp
qed

lemma first_occurrences_repeat:
  assumes "distinct cols" and "set cols \<subseteq> set seen \<or> seen = []" and "0 < k \<or> set cols \<subseteq> set seen"
  shows "first_occurrences seen (concat (replicate k cols)) = (if set cols \<subseteq> set seen then [] else cols)"
  using assms(2,3)
proof (induction k arbitrary: seen)
  case 0
  then show ?case by simp
next
  case (Suc k)
  show ?case
  proof (cases "set cols \<subseteq> set seen")
    case True
    then have "set (first_occurrences seen cols) = {}"
      by (simp add: first_occurrences_set)
    then have a: "first_occurrences seen cols = []" by simp
    from True have "set cols \<subseteq> set (rev cols @ seen)" by auto
    from Suc.IH [of "rev cols @ seen"] this
    have "first_occurrences (rev cols @ seen) (concat (replicate k cols)) = []" by simp
    with a True show ?thesis by (simp add: first_occurrences_append)
  next
    case False
    with Suc.prems have e: "seen = []" by simp
    then have a: "first_occurrences seen cols = cols"
      using assms(1) by (simp add: first_occurrences_fixed)
    have "set cols \<subseteq> set (rev cols @ seen)" by auto
    from Suc.IH [of "rev cols @ seen"] this
    have "first_occurrences (rev cols @ seen) (concat (replicate k cols)) = []" by simp
    with a False show ?thesis by (simp add: first_occurrences_append)
  qed
qed

lemma reindex_row_same:
  assumes "distinct cols" and "length r = length cols"
  shows "reindex_row cols cols r = r"
proof (rule nth_equalityI)
  show "length (reindex_row cols cols r) = length r" using assms by (simp add: reindex_row_def)
next
  fix i assume "i < length (reindex_row cols cols r)"
  then have i: "i < length cols" by (simp add: reindex_row_def)
  from assms(1) i have "index_of (cols ! i) cols = Some i"
  proof -
    obtain j where j: "index_of (cols ! i) cols = Some j"
      using index_of_mem [of "cols ! i" cols] i by auto
    from index_of_Some [OF j] assms(1) i have "j = i" by (auto simp: nth_eq_iff_index_eq)
    with j show ?thesis by simp
  qed
  with i show "reindex_row cols cols r ! i = r ! i" by (simp add: reindex_row_def)
qed

lemma pd_concat_blocks:
  assumes "wf_frame df" and "0 < k" and "length (rows df) \<le> k * m"
  shows "pd_concat (map (\<lambda>i. df\<lparr>rows := take m (drop (i * m) (rows df))\<rparr>) [0..<k]) = Inr df"
proof -
  let ?shards = "map (\<lambda>i. df\<lparr>rows := take m (drop (i * m) (rows df))\<rparr>) [0..<k]"
  from assms(1) have d: "distinct (columns df)"
    and w: "\<And>r. r \<in> set (rows df) \<Longrightarrow> length r = length (columns df)"
    by (auto simp: wf_frame_def list_all_iff)
  have e: "concat (map columns ?shards) = concat (replicate k (columns df))"
    by (simp add: comp_def map_replicate_const)
  have c: "first_occurrences [] (concat (map columns ?shards)) = columns df"
    unfolding e using first_occurrences_repeat [OF d, of "[]" k] assms(2)
    by (cases "columns df = []") auto
  have "map (reindex_row (columns df) (columns df)) xs = xs" if "set xs \<subseteq> set (rows df)" for xs
    using that by (induction xs) (auto simp: reindex_row_same [OF d] w)
  then have r: "map (reindex_row (columns df) (columns df)) (take m (drop (i * m) (rows df)))
      = take m (drop (i * m) (rows df))" for i
    by (meson in_set_dropD in_set_takeD subsetI)
  have "concat (map (\<lambda>s. map (reindex_row (columns df) (columns s)) (rows s)) ?shards)
      = concat (map (\<lambda>i. take m (drop (i * m) (rows df))) [0..<k])"
    by (simp add: comp_def r)
  also have "\<dots> = rows df" using assms(3) by (simp add: concat_blocks)
  finally have rs: "concat (map (\<lambda>s. map (reindex_row (columns df) (columns s)) (rows s)) ?shards)
      = rows df" .
  from assms(2) have ne: "?shards \<noteq> []" by simp
  show ?thesis
    unfolding pd_concat_def Let_def c rs using ne by simp
qed

text \<open>
  Claim C2. With a cap of at least one row, reading back the files that
  \<open>split_and_save\<close> wrote, in the order \<open>part1\<close>, \<open>part2\<close>, \<dots>, and putting their rows
  one after the other gives the rows of the input table, in the same order and none
  missing or repeated; every file carries the columns of the input. For a well-formed
  table \<open>pd.concat\<close> of the files is the table itself.
\<close>

theorem split_and_save_roundtrip:
  assumes "1 \<le> max_rows"
  shows "\<exists>infos fs' shards. split_and_save df base max_rows fs = (Inr infos, fs')
    \<and> map file_path infos = map (\<lambda>i. part_file base (int i + 1)) [0..<length infos]
    \<and> map fs' (map file_path infos) = map Some shards
    \<and> list_all (\<lambda>s. columns s = columns df) shards
    \<and> concat (map rows shards) = rows df
    \<and> (wf_frame df \<longrightarrow> pd_concat shards = Inr df)"
proof -
  define m where "m = nat max_rows"
  define n where "n = length (rows df)"
  define k where "k = (if int n \<le> max_rows then 1 else (n + m - 1) div m)"
  define info where "info = (\<lambda>i. \<lparr>file_path = part_file base (int i + 1),
      nrows = length (take m (drop (i * m) (rows df)))\<rparr>)"
  define shard where "shard = (\<lambda>i. df\<lparr>rows := take m (drop (i * m) (rows df))\<rparr>)"
  from assms have mx: "max_rows = int m" and m: "1 \<le> m" by (simp_all add: m_def)
  from split_and_save_result [OF assms, of df base fs]
  obtain fs' where r: "split_and_save df base max_rows fs = (Inr (map info [0..<k]), fs')"
    and f: "\<And>i. i < k \<Longrightarrow> fs' (part_file base (int i + 1)) = Some (shard i)"
    unfolding m_def n_def k_def info_def shard_def by blast
  have k: "0 < k" and cover: "n \<le> k * m"
  proof -
    show "0 < k"
    proof (cases "int n \<le> max_rows")
      case True
      then show ?thesis by (simp add: k_def)
    next
      case False
      then have "m \<le> n + m - 1" using mx by simp
      then have "m div m \<le> (n + m - 1) div m" by (rule div_le_mono)
      with False m show ?thesis by (simp add: k_def)
    qed
    show "n \<le> k * m"
    proof (cases "int n \<le> max_rows")
      case True
      then show ?thesis using mx by (simp add: k_def)
    next
      case False
      then have "0 < n" using assms by simp
      from ceil_div_bracket [OF m this] False show ?thesis by (simp add: k_def)
    qed
  qed
  have names: "map file_path (map info [0..<k])
      = map (\<lambda>i. part_file base (int i + 1)) [0..<length (map info [0..<k])]"
    by (simp add: info_def comp_def)
  have readback: "map fs' (map file_path (map info [0..<k])) = map Some (map shard [0..<k])"
    using f by (simp add: info_def comp_def)
  have cols: "list_all (\<lambda>s. columns s = columns df) (map shard [0..<k])"
    by (simp add: list_all_iff shard_def)
  have "concat (map rows (map shard [0..<k])) = concat (map (\<lambda>i. take m (drop (i * m) (rows df))) [0..<k])"
    by (simp add: shard_def comp_def)
  also have "\<dots> = rows df" using cover by (simp add: concat_blocks n_def)
  finally have cat: "concat (map rows (map shard [0..<k])) = rows df" .
  have pd: "wf_frame df \<longrightarrow> pd_concat (map shard [0..<k]) = Inr df"
    using pd_concat_blocks [of df k m] k cover by (simp add: shard_def n_def)
  show ?thesis
    by (intro exI [of _ "map info [0..<k]"] exI [of _ fs'] exI [of _ "map shard [0..<k]"]
        conjI r names readback cols cat pd)
qed

theorem split_and_save_roundtrip_witness:
  "\<exists>infos fs' shards.
     split_and_save \<lparr>columns = [''pincode''], rows = [[Num 1], [Num 2], [Num 3]]\<rparr> ''b'' 2 Map.empty
       = (Inr infos, fs')
     \<and> map fs' (map file_path infos) = map Some shards
     \<and> concat (map rows shards) = [[Num 1], [Num 2], [Num 3]]
     \<and> pd_concat shards = Inr \<lparr>columns = [''pincode''], rows = [[Num 1], [Num 2], [Num 3]]\<rparr>"
proof -
  let ?ex = "\<lparr>columns = [''pincode''], rows = [[Num 1], [Num 2], [Num 3]]\<rparr>"
  have h: "(1::int) \<le> 2" by simp
  have w: "wf_frame ?ex" by (simp add: wf_frame_def)
  from split_and_save_roundtrip [OF h, of ?ex "''b''" Map.empty]
  obtain infos fs' shards where
    r: "split_and_save ?ex ''b'' 2 Map.empty = (Inr infos, fs')"
    and b: "map fs' (map file_path infos) = map Some shards"
    and c: "concat (map rows shards) = rows ?ex"
    and p: "wf_frame ?ex \<longrightarrow> pd_concat shards = Inr ?ex"
    by (elim exE conjE) (rule that)
  from c have c': "concat (map rows shards) = [[Num 1], [Num 2], [Num 3]]" by simp
  from p w have p': "pd_concat shards = Inr ?ex" by simp
  show ?thesis
    by (rule exI [of _ infos], rule exI [of _ fs'], rule exI [of _ shards]) (simp only: r b c' p')
qed

section \<open>Column formatting\<close>

lemma convert_dates_rows:
  "index_of ''date'' (columns df) = Some j \<Longrightarrow>
     convert_dates df =
       Inr (df\<lparr>rows := map (\<lambda>r. r[j := strftime_ymd (to_datetime (r ! j))]) (rows df)\<rparr>)"
  by (simp add: convert_dates_def getitem_def bind_err_def setitem_old)

lemma convert_dates_KeyError:
  "index_of ''date'' (columns df) = None \<Longrightarrow> convert_dates df = Inl (KeyError ''date'')"
  by (simp add: convert_dates_def getitem_def bind_err_def)

lemma validate_pincodes_rows:
  "index_of ''pincode'' (columns df) = Some j \<Longrightarrow>
     validate_pincodes df =
       Inr (df\<lparr>rows := map (\<lambda>r. r[j := Str (zfill 6
              (dtype_str (float_column (map (\<lambda>r. r ! j) (rows df))) (r ! j)))]) (rows df)\<rparr>)"
  by (simp add: validate_pincodes_def getitem_def bind_err_def setitem_old str_method_def
      astype_str_def)

lemma dtype_str_False: "dtype_str False v = cell_str v"
  by (cases v) (simp_all add: dtype_str_def cell_str_def)

lemma dtype_str_True:
  "dtype_str True (Num i) = float_str i" "dtype_str True (Float i) = float_str i"
  "dtype_str True (Str s) = s" "dtype_str True NaN = ''nan''"
  by (simp_all add: dtype_str_def cell_str_def)

lemma float_column_set: "set vs = set ws \<Longrightarrow> float_column vs = float_column ws"
  by (simp add: float_column_def list_ex_iff)

lemma float_column_iff:
  "float_column vs = ((\<forall>v\<in>set vs. \<not> is_text v) \<and> (\<exists>v\<in>set vs. v = NaN \<or> is_float v))"
  by (simp add: float_column_def list_ex_iff)

lemma standardize_districts_rows:
  "standardize_districts df = Inr out \<Longrightarrow>
     \<exists>j. index_of ''district'' (columns df) = Some j \<and>
       out = df\<lparr>rows := map (\<lambda>r. r[j := str_method title (str_method strip (r ! j))]) (rows df)\<rparr>"
  by (auto simp: standardize_districts_def getitem_def bind_err_def setitem_old str_accessor_def
      split: option.splits if_splits)

lemma standardize_districts_ok:
  "index_of ''district'' (columns df) = Some j \<Longrightarrow>
   rows df = [] \<or> list_ex (\<lambda>r. is_text (r ! j)) (rows df) \<Longrightarrow>
     standardize_districts df =
       Inr (df\<lparr>rows := map (\<lambda>r. r[j := str_method title (str_method strip (r ! j))]) (rows df)\<rparr>)"
  by (auto simp: standardize_districts_def getitem_def bind_err_def setitem_old str_accessor_def
      list_ex_iff)

lemma zfill_length: "length (zfill w s) = max w (length s)"
  by (auto simp: zfill_def split: list.splits)

lemma zfill_unchanged: "w \<le> length s \<Longrightarrow> zfill w s = s"
  by (simp add: zfill_def)

lemma zfill_left_pad:
  "s = [] \<or> (hd s \<noteq> CHR ''+'' \<and> hd s \<noteq> CHR ''-'') \<Longrightarrow>
     zfill w s = replicate (w - length s) CHR ''0'' @ s"
  by (auto simp: zfill_def split: list.splits)

lemma zfill_signed:
  "s \<noteq> [] \<Longrightarrow> hd s = CHR ''+'' \<or> hd s = CHR ''-'' \<Longrightarrow>
     zfill w s = hd s # replicate (w - length s) CHR ''0'' @ tl s"
  by (auto simp: zfill_def split: list.splits)

lemma float_str_examples:
  "float_str 12345 = ''12345.0''" "float_str 600001 = ''600001.0''"
  "py_str 12345 = ''12345''" "py_str 600001 = ''600001''"
  by (simp_all add: float_str_def py_str_eval)

lemma zfill_examples:
  "zfill 6 ''12345.0'' = ''12345.0''" "zfill 6 ''600001.0'' = ''600001.0''"
  "zfill 6 ''nan'' = ''000nan''" "zfill 6 ''12345'' = ''012345''" "zfill 6 ''600001'' = ''600001''"
  "zfill 6 ''1234567'' = ''1234567''"
  by code_simp+

text \<open>
  Claim C9. The pincode column is cast to text and padded with zeros to six characters,
  so that 12345 comes out as \<open>012345\<close> and 600001 as it is. The code does so for a column
  of integers and for a column of texts, where a longer text stays as it is. For a column
  of numbers with a blank field it does not: pandas holds such
  a column as \<open>float64\<close>, the cast prints 12345 as \<open>12345.0\<close>, a text of seven characters
  that the padding leaves as it is, and the blank field comes out as \<open>000nan\<close>. The same
  happens to the integers of one file when another file has no pincode column.
\<close>

theorem pincode_float_column_unpadded:
  "validate_pincodes \<lparr>columns = [''pincode'', ''state''],
       rows = [[Float 12345, Str ''Goa''], [NaN, Str ''Goa''], [Float 600001, Str ''Goa'']]\<rparr>
     = Inr \<lparr>columns = [''pincode'', ''state''],
       rows = [[Str ''12345.0'', Str ''Goa''], [Str ''000nan'', Str ''Goa''],
               [Str ''600001.0'', Str ''Goa'']]\<rparr>
   \<and> bind_err (pd_concat [\<lparr>columns = [''pincode'', ''state''],
                               rows = [[Num 12345, Str ''Goa''], [Num 600001, Str ''Goa'']]\<rparr>,
                             \<lparr>columns = [''state''], rows = [[Str ''Goa'']]\<rparr>]) validate_pincodes
     = Inr \<lparr>columns = [''pincode'', ''state''],
       rows = [[Str ''12345.0'', Str ''Goa''], [Str ''600001.0'', Str ''Goa''],
               [Str ''000nan'', Str ''Goa'']]\<rparr>
   \<and> validate_pincodes \<lparr>columns = [''pincode'', ''state''],
       rows = [[Num 12345, Str ''Goa''], [Num 600001, Str ''Goa'']]\<rparr>
     = Inr \<lparr>columns = [''pincode'', ''state''],
       rows = [[Str ''012345'', Str ''Goa''], [Str ''600001'', Str ''Goa'']]\<rparr>
   \<and> validate_pincodes \<lparr>columns = [''pincode'', ''state''],
       rows = [[Str ''12345'', Str ''Goa''], [Str ''600001'', Str ''Goa''],
               [Str ''1234567'', Str ''Goa'']]\<rparr>
     = Inr \<lparr>columns = [''pincode'', ''state''],
       rows = [[Str ''012345'', Str ''Goa''], [Str ''600001'', Str ''Goa''],
               [Str ''1234567'', Str ''Goa'']]\<rparr>"
proof (intro conjI)
  let ?a = "\<lparr>columns = [''pincode'', ''state''],
       rows = [[Float 12345, Str ''Goa''], [NaN, Str ''Goa''], [Float 600001, Str ''Goa'']]\<rparr>"
  have i: "index_of ''pincode'' (columns ?a) = Some 0" by simp
  show "validate_pincodes ?a = Inr \<lparr>columns = [''pincode'', ''state''],
       rows = [[Str ''12345.0'', Str ''Goa''], [Str ''000nan'', Str ''Goa''],
               [Str ''600001.0'', Str ''Goa'']]\<rparr>"
    unfolding validate_pincodes_rows [OF i]
    by (simp add: float_column_def is_text_def is_float_def dtype_str_True float_str_examples
        zfill_examples)
next
  let ?b = "\<lparr>columns = [''pincode'', ''state''],
       rows = [[Num 12345, Str ''Goa''], [Num 600001, Str ''Goa''], [NaN, Str ''Goa'']]\<rparr>"
  have c: "pd_concat [\<lparr>columns = [''pincode'', ''state''],
                        rows = [[Num 12345, Str ''Goa''], [Num 600001, Str ''Goa'']]\<rparr>,
                      \<lparr>columns = [''state''], rows = [[Str ''Goa'']]\<rparr>] = Inr ?b"
    by (simp add: pd_concat_def reindex_row_def)
  have i: "index_of ''pincode'' (columns ?b) = Some 0" by simp
  have "validate_pincodes ?b = Inr \<lparr>columns = [''pincode'', ''state''],
       rows = [[Str ''12345.0'', Str ''Goa''], [Str ''600001.0'', Str ''Goa''],
               [Str ''000nan'', Str ''Goa'']]\<rparr>"
    unfolding validate_pincodes_rows [OF i]
    by (simp add: float_column_def is_text_def is_float_def dtype_str_True float_str_examples
        zfill_examples)
  with c show "bind_err (pd_concat [\<lparr>columns = [''pincode'', ''state''],
                               rows = [[Num 12345, Str ''Goa''], [Num 600001, Str ''Goa'']]\<rparr>,
                             \<lparr>columns = [''state''], rows = [[Str ''Goa'']]\<rparr>]) validate_pincodes
     = Inr \<lparr>columns = [''pincode'', ''state''],
       rows = [[Str ''12345.0'', Str ''Goa''], [Str ''600001.0'', Str ''Goa''],
               [Str ''000nan'', Str ''Goa'']]\<rparr>"
    by (simp add: bind_err_def)
next
  let ?c = "\<lparr>columns = [''pincode'', ''state''],
       rows = [[Num 12345, Str ''Goa''], [Num 600001, Str ''Goa'']]\<rparr>"
  have i: "index_of ''pincode'' (columns ?c) = Some 0" by simp
  show "validate_pincodes ?c = Inr \<lparr>columns = [''pincode'', ''state''],
       rows = [[Str ''012345'', Str ''Goa''], [Str ''600001'', Str ''Goa'']]\<rparr>"
    unfolding validate_pincodes_rows [OF i]
    by (simp add: float_column_def is_text_def is_float_def dtype_str_def float_str_examples
        zfill_examples)
next
  let ?d = "\<lparr>columns = [''pincode'', ''state''],
       rows = [[Str ''12345'', Str ''Goa''], [Str ''600001'', Str ''Goa''],
               [Str ''1234567'', Str ''Goa'']]\<rparr>"
  have i: "index_of ''pincode'' (columns ?d) = Some 0" by simp
  show "validate_pincodes ?d = Inr \<lparr>columns = [''pincode'', ''state''],
       rows = [[Str ''012345'', Str ''Goa''], [Str ''600001'', Str ''Goa''],
               [Str ''1234567'', Str ''Goa'']]\<rparr>"
    unfolding validate_pincodes_rows [OF i]
    by (simp add: float_column_def is_text_def is_float_def dtype_str_False cell_str_def
        zfill_examples)
qed

lemma astype_str_int_column:
  "\<not> float_column vs \<Longrightarrow> astype_str vs = map (\<lambda>v. Str (cell_str v)) vs"
  by (simp add: astype_str_def dtype_str_False)

lemma isdigit_digit_char: "k < 10 \<Longrightarrow> isdigit (digit_char k)"
  by (simp add: isdigit_def digit_char_def)

lemma str_nat_digits: "list_all isdigit (str_nat n)"
proof (induction n rule: str_nat.induct)
  case (1 n)
  show ?case
  proof (cases "n < 10")
    case True
    then show ?thesis by (simp add: str_nat.simps [of n] isdigit_digit_char)
  next
    case False
    with 1 show ?thesis by (simp add: str_nat.simps [of n] isdigit_digit_char)
  qed
qed

lemma str_nat_length_1: "n < 10 \<Longrightarrow> length (str_nat n) = 1"
  by (simp add: str_nat.simps [of n])

lemma str_nat_length_2: "10 \<le> n \<Longrightarrow> n < 100 \<Longrightarrow> length (str_nat n) = 2"
  using str_nat_length_1 [of "n div 10"] by (simp add: str_nat.simps [of n])

lemma str_nat_length_3: "100 \<le> n \<Longrightarrow> n < 1000 \<Longrightarrow> length (str_nat n) = 3"
  using str_nat_length_2 [of "n div 10"] by (simp add: str_nat.simps [of n])

lemma str_nat_length_4: "1000 \<le> n \<Longrightarrow> n < 10000 \<Longrightarrow> length (str_nat n) = 4"
  using str_nat_length_3 [of "n div 10"] by (simp add: str_nat.simps [of n])

lemma zfill_2_length: "n < 100 \<Longrightarrow> length (zfill 2 (str_nat n)) = 2"
  using str_nat_length_1 [of n] str_nat_length_2 [of n]
  by (cases "n < 10") (simp_all add: zfill_length)

lemma isdigit_zero: "isdigit CHR ''0''"
  by (simp add: isdigit_def)

lemma zfill_digits: "list_all isdigit s \<Longrightarrow> list_all isdigit (zfill w s)"
  by (auto simp: zfill_def list_all_iff isdigit_zero split: list.splits)

lemma digit_val_le: "isdigit c \<Longrightarrow> digit_val c \<le> 9"
  by (auto simp: isdigit_def digit_val_def)

lemma digit_val_pos: "isdigit c \<Longrightarrow> c \<noteq> CHR ''0'' \<Longrightarrow> 1 \<le> digit_val c"
proof -
  assume d: "isdigit c" and n: "c \<noteq> CHR ''0''"
  from n have "(of_char c :: nat) \<noteq> of_char CHR ''0''" by (simp only: of_char_eq_iff not_False_eq_True)
  then have "(of_char c :: nat) \<noteq> 48" by simp
  with d show ?thesis by (auto simp: isdigit_def digit_val_def)
qed

lemma digit_val_lits:
  "digit_val CHR ''0'' = 0" "digit_val CHR ''1'' = 1" "digit_val CHR ''2'' = 2" "digit_val CHR ''3'' = 3"
  by (simp_all add: digit_val_def)

lemma int_of_digits_1: "int_of_digits [a] = digit_val a"
  by (simp add: int_of_digits_def)

lemma int_of_digits_2: "int_of_digits [a, b] = 10 * digit_val a + digit_val b"
  by (simp add: int_of_digits_def)

lemma matches_m_range:
  assumes "matches_m s"
  shows "1 \<le> int_of_digits s \<and> int_of_digits s \<le> 12"
proof -
  from assms consider
      (one) a where "s = [a]" "isdigit a" "a \<noteq> CHR ''0''"
    | (ten) b where "s = [CHR ''1'', b]" "b = CHR ''0'' \<or> b = CHR ''1'' \<or> b = CHR ''2''"
    | (zero) b where "s = [CHR ''0'', b]" "isdigit b" "b \<noteq> CHR ''0''"
    by (auto simp: matches_m_def split: list.splits)
  then show ?thesis
  proof cases
    case one
    with digit_val_le [of a] digit_val_pos [of a] show ?thesis by (simp add: int_of_digits_1)
  next
    case ten
    then show ?thesis by (auto simp: int_of_digits_2 digit_val_lits)
  next
    case zero
    with digit_val_le [of b] digit_val_pos [of b] show ?thesis
      by (simp add: int_of_digits_2 digit_val_lits)
  qed
qed

lemma matches_d_pos:
  assumes "matches_d s"
  shows "1 \<le> int_of_digits (filter isdigit s)"
proof -
  from assms consider
      (one) a where "s = [a]" "isdigit a" "a \<noteq> CHR ''0''"
    | (two) a b where "s = [a, b]" "isdigit a" "a \<noteq> CHR ''0''" "isdigit b"
    | (pad) a b where "s = [a, b]" "a = CHR ''0'' \<or> a = CHR '' ''" "isdigit b" "b \<noteq> CHR ''0''"
    by (auto simp: matches_d_def isdigit_def split: list.splits)
  then show ?thesis
  proof cases
    case one
    with digit_val_pos [of a] show ?thesis by (simp add: int_of_digits_1)
  next
    case two
    with digit_val_pos [of a] show ?thesis by (simp add: int_of_digits_2)
  next
    case pad
    have "\<not> isdigit CHR '' ''" by (simp add: isdigit_def)
    with pad digit_val_pos [of b] show ?thesis
      by (auto simp: int_of_digits_1 int_of_digits_2 isdigit_zero digit_val_lits)
  qed
qed

lemma days_in_month_le: "days_in_month y m \<le> 31"
  by (simp add: days_in_month_def)

lemma matches_d_no_dash: "matches_d s \<Longrightarrow> CHR ''-'' \<notin> set s"
  by (auto simp: matches_d_def isdigit_def split: list.splits)

lemma matches_m_no_dash: "matches_m s \<Longrightarrow> CHR ''-'' \<notin> set s"
  by (auto simp: matches_m_def isdigit_def split: list.splits)

lemma takeWhile_dash: "CHR ''-'' \<notin> set xs \<Longrightarrow> takeWhile (\<lambda>c. c \<noteq> CHR ''-'') (xs @ CHR ''-'' # ys) = xs"
  by (induction xs) auto

lemma dmy_parts_split:
  assumes "CHR ''-'' \<notin> set dt" "CHR ''-'' \<notin> set mt"
  shows "dmy_parts (dt @ ''-'' @ mt @ ''-'' @ yt) = (dt, mt, yt)"
  using assms by (simp add: dmy_parts_def Let_def takeWhile_dash)

lemma matches_dmy_iff:
  "matches_dmy s \<longleftrightarrow>
     (\<exists>dt mt yt. s = dt @ ''-'' @ mt @ ''-'' @ yt \<and> matches_d dt \<and> matches_m mt \<and> matches_Y yt)"
proof
  assume "matches_dmy s"
  then show "\<exists>dt mt yt. s = dt @ ''-'' @ mt @ ''-'' @ yt \<and> matches_d dt \<and> matches_m mt \<and> matches_Y yt"
    by (auto simp: matches_dmy_def split: prod.splits)
next
  assume "\<exists>dt mt yt. s = dt @ ''-'' @ mt @ ''-'' @ yt \<and> matches_d dt \<and> matches_m mt \<and> matches_Y yt"
  then obtain dt mt yt where s: "s = dt @ ''-'' @ mt @ ''-'' @ yt"
    and m: "matches_d dt" "matches_m mt" "matches_Y yt" by blast
  from m have "dmy_parts s = (dt, mt, yt)"
    unfolding s by (intro dmy_parts_split matches_d_no_dash matches_m_no_dash)
  with s m show "matches_dmy s" by (simp add: matches_dmy_def)
qed

lemma timestamp_range_year: "in_timestamp_range (y, m, d) \<Longrightarrow> 1677 \<le> y \<and> y \<le> 2262"
  by (auto simp: in_timestamp_range_def less_eq_prod_def)

lemma strptime_dmy_iff:
  "strptime_dmy s = Some (y, m, d) \<longleftrightarrow>
     (\<exists>dt mt yt. s = dt @ ''-'' @ mt @ ''-'' @ yt
        \<and> matches_d dt \<and> matches_m mt \<and> matches_Y yt
        \<and> d = int_of_digits (filter isdigit dt) \<and> m = int_of_digits mt \<and> y = int_of_digits yt
        \<and> d \<le> days_in_month y m \<and> in_timestamp_range (y, m, d))"
proof
  assume a: "strptime_dmy s = Some (y, m, d)"
  obtain dt mt yt where p: "dmy_parts s = (dt, mt, yt)" by (cases "dmy_parts s") auto
  from a p have c: "matches_dmy s" "d = int_of_digits (filter isdigit dt)" "m = int_of_digits mt"
    "y = int_of_digits yt" "d \<le> days_in_month y m" "in_timestamp_range (y, m, d)"
    by (auto simp: strptime_dmy_def Let_def split: if_splits)
  from c(1) p have "s = dt @ ''-'' @ mt @ ''-'' @ yt" "matches_d dt" "matches_m mt" "matches_Y yt"
    by (simp_all add: matches_dmy_def)
  with c show "\<exists>dt mt yt. s = dt @ ''-'' @ mt @ ''-'' @ yt
        \<and> matches_d dt \<and> matches_m mt \<and> matches_Y yt
        \<and> d = int_of_digits (filter isdigit dt) \<and> m = int_of_digits mt \<and> y = int_of_digits yt
        \<and> d \<le> days_in_month y m \<and> in_timestamp_range (y, m, d)"
    by blast
next
  assume "\<exists>dt mt yt. s = dt @ ''-'' @ mt @ ''-'' @ yt
        \<and> matches_d dt \<and> matches_m mt \<and> matches_Y yt
        \<and> d = int_of_digits (filter isdigit dt) \<and> m = int_of_digits mt \<and> y = int_of_digits yt
        \<and> d \<le> days_in_month y m \<and> in_timestamp_range (y, m, d)"
  then obtain dt mt yt where s: "s = dt @ ''-'' @ mt @ ''-'' @ yt"
    and m: "matches_d dt" "matches_m mt" "matches_Y yt"
    and n: "d = int_of_digits (filter isdigit dt)" "m = int_of_digits mt" "y = int_of_digits yt"
    and v: "d \<le> days_in_month y m" "in_timestamp_range (y, m, d)"
    by blast
  from m have p: "dmy_parts s = (dt, mt, yt)"
    unfolding s by (intro dmy_parts_split matches_d_no_dash matches_m_no_dash)
  from s m have mm: "matches_dmy s" unfolding matches_dmy_iff by blast
  from timestamp_range_year [OF v(2)] have "1 \<le> y" by simp
  with p mm n v show "strptime_dmy s = Some (y, m, d)"
    by (simp add: strptime_dmy_def Let_def)
qed

lemma strptime_dmy_Some:
  assumes "strptime_dmy s = Some (y, m, d)"
  shows "1677 \<le> y \<and> y \<le> 2262 \<and> 1 \<le> m \<and> m \<le> 12 \<and> 1 \<le> d \<and> d \<le> days_in_month y m"
proof -
  from assms obtain dt mt yt where c: "matches_d dt" "matches_m mt"
    "d = int_of_digits (filter isdigit dt)" "m = int_of_digits mt" "y = int_of_digits yt"
    "d \<le> days_in_month y m" "in_timestamp_range (y, m, d)"
    unfolding strptime_dmy_iff by blast
  from timestamp_range_year [OF c(7)] matches_m_range [OF c(2)] matches_d_pos [OF c(1)] c
  show ?thesis by simp
qed

lemma digit_val_digit_char: "k < 10 \<Longrightarrow> digit_val (digit_char k) = k"
  by (simp add: digit_val_def digit_char_def)

lemma int_of_digits_snoc: "int_of_digits (s @ [c]) = 10 * int_of_digits s + digit_val c"
  by (simp add: int_of_digits_def)

lemma int_of_digits_str_nat: "int_of_digits (str_nat n) = n"
proof (induction n rule: str_nat.induct)
  case (1 n)
  show ?case
  proof (cases "n < 10")
    case True
    then show ?thesis by (simp add: str_nat.simps [of n] int_of_digits_1 digit_val_digit_char)
  next
    case False
    with 1 show ?thesis
      by (simp add: str_nat.simps [of n] int_of_digits_snoc digit_val_digit_char)
  qed
qed

lemma int_of_digits_zero: "int_of_digits (CHR ''0'' # s) = int_of_digits s"
  by (simp add: int_of_digits_def digit_val_lits)

lemma isdigit_not_sign: "isdigit c \<Longrightarrow> c \<noteq> CHR ''+'' \<and> c \<noteq> CHR ''-''"
  by (auto simp: isdigit_def)

lemma int_of_digits_zfill_2: "int_of_digits (zfill 2 (str_nat n)) = n"
proof (cases "n < 10")
  case True
  then have "zfill 2 (str_nat n) = CHR ''0'' # str_nat n"
    using isdigit_not_sign [OF isdigit_digit_char [of n]]
    by (simp add: str_nat.simps [of n] zfill_def)
  then show ?thesis by (simp add: int_of_digits_zero int_of_digits_str_nat)
next
  case False
  then have "2 \<le> length (str_nat n)"
    using str_nat_nonempty [of "n div 10"]
    by (cases "str_nat (n div 10)") (simp_all add: str_nat.simps [of n])
  then show ?thesis by (simp add: zfill_unchanged int_of_digits_str_nat)
qed

lemma matches_Y_str_nat: "1000 \<le> y \<Longrightarrow> y < 10000 \<Longrightarrow> matches_Y (str_nat y)"
  by (simp add: matches_Y_def str_nat_length_4 str_nat_digits)

lemma day_texts:
  "list_all (\<lambda>d. matches_d (str_nat d) \<and> matches_d (zfill 2 (str_nat d))
                \<and> int_of_digits (filter isdigit (str_nat d)) = d
                \<and> int_of_digits (filter isdigit (zfill 2 (str_nat d))) = d) [1..<32]"
  by code_simp

lemma month_texts:
  "list_all (\<lambda>m. matches_m (str_nat m) \<and> matches_m (zfill 2 (str_nat m))) [1..<13]"
  by code_simp

lemma strptime_dmy_written:
  assumes m: "1 \<le> m" "m \<le> 12" and d: "1 \<le> d" "d \<le> days_in_month y m"
    and r: "in_timestamp_range (y, m, d)"
    and dt: "dt = str_nat d \<or> dt = zfill 2 (str_nat d)"
    and mt: "mt = str_nat m \<or> mt = zfill 2 (str_nat m)"
  shows "strptime_dmy (dt @ ''-'' @ mt @ ''-'' @ str_nat y) = Some (y, m, d)"
proof -
  from d days_in_month_le [of y m] have "d \<in> set [1..<32]" by simp
  with day_texts have D: "matches_d (str_nat d)" "matches_d (zfill 2 (str_nat d))"
    "int_of_digits (filter isdigit (str_nat d)) = d"
    "int_of_digits (filter isdigit (zfill 2 (str_nat d))) = d"
    unfolding list_all_iff by blast+
  from m have "m \<in> set [1..<13]" by simp
  with month_texts have M: "matches_m (str_nat m)" "matches_m (zfill 2 (str_nat m))"
    unfolding list_all_iff by blast+
  from timestamp_range_year [OF r] have Y: "matches_Y (str_nat y)"
    by (intro matches_Y_str_nat) simp_all
  from dt D have a: "matches_d dt" "int_of_digits (filter isdigit dt) = d" by auto
  from mt M have b: "matches_m mt" "int_of_digits mt = m"
    by (auto simp: int_of_digits_str_nat int_of_digits_zfill_2)
  show ?thesis
    unfolding strptime_dmy_iff
    using a b Y d r by (intro exI [of _ dt] exI [of _ mt] exI [of _ "str_nat y"])
      (simp add: int_of_digits_str_nat)
qed

lemma str_nat_no_dash: "CHR ''-'' \<notin> set (str_nat n)"
  using str_nat_digits [of n] by (auto simp: list_all_iff isdigit_def)

lemma strptime_dmy_number: "strptime_dmy (py_str i @ t) = None" if "CHR ''-'' \<notin> set t"
proof (rule ccontr)
  assume "strptime_dmy (py_str i @ t) \<noteq> None"
  then obtain y m d where "strptime_dmy (py_str i @ t) = Some (y, m, d)" by auto
  then obtain dt mt yt where s: "py_str i @ t = dt @ ''-'' @ mt @ ''-'' @ yt" and md: "matches_d dt"
    unfolding strptime_dmy_iff by blast
  from md have ne: "dt \<noteq> []" and nd: "CHR ''-'' \<notin> set dt"
    by (auto simp: matches_d_def isdigit_def split: list.splits)
  show False
  proof (cases "i < 0")
    case True
    then have "hd (py_str i @ t) = CHR ''-''" by (simp add: py_str_def)
    with s ne have "hd dt = CHR ''-''" by simp
    with ne nd show False by (cases dt) auto
  next
    case False
    then have "CHR ''-'' \<notin> set (py_str i @ t)"
      using that by (simp add: py_str_def str_nat_no_dash)
    with s show False by simp
  qed
qed

lemma to_datetime_not_text:
  "to_datetime NaN = None" "to_datetime (Num i) = None" "to_datetime (Float i) = None"
  using strptime_dmy_number [of "[]" i] strptime_dmy_number [of "''.0''" i]
  by (simp_all add: to_datetime_def cell_str_def float_str_def)

lemma strftime_ymd_Some:
  assumes "1000 \<le> y" "y < 10000"
  shows "strftime_ymd (Some (y, m, d))
    = Str (str_nat y @ ''-'' @ zfill 2 (str_nat m) @ ''-'' @ zfill 2 (str_nat d))"
  using str_nat_length_4 [OF assms] by (simp add: strftime_ymd_def zfill_unchanged)

lemma to_datetime_iff:
  "to_datetime v = Some (y, m, d) \<longleftrightarrow>
     (\<exists>dt mt yt. v = Str (dt @ ''-'' @ mt @ ''-'' @ yt)
        \<and> matches_d dt \<and> matches_m mt \<and> matches_Y yt
        \<and> d = int_of_digits (filter isdigit dt) \<and> m = int_of_digits mt \<and> y = int_of_digits yt
        \<and> d \<le> days_in_month y m \<and> in_timestamp_range (y, m, d))"
proof (cases v)
  case (Str s)
  then show ?thesis by (simp add: to_datetime_def cell_str_def strptime_dmy_iff)
qed (simp_all add: to_datetime_not_text)

text \<open>
  Claim C7 as it is worded does not hold of the code. The text \<open>01-01-1500\<close> matches
  the day-month-year format and names a day of the calendar, yet lies before the first
  timestamp pandas can hold; the text \<open>31-02-2025\<close> matches the format and names no
  day. Date conversion rewrites neither: both come out as the missing value.
\<close>

theorem date_matching_format_not_rewritten:
  "matches_dmy ''01-01-1500''
   \<and> to_datetime (Str ''01-01-1500'') = None
   \<and> matches_dmy ''31-02-2025''
   \<and> to_datetime (Str ''31-02-2025'') = None
   \<and> convert_dates \<lparr>columns = [''date'', ''state''],
        rows = [[Str ''01-01-1500'', Str ''Goa''], [Str ''31-02-2025'', Str ''Goa'']]\<rparr>
     = Inr \<lparr>columns = [''date'', ''state''], rows = [[NaN, Str ''Goa''], [NaN, Str ''Goa'']]\<rparr>"
proof -
  have a: "matches_dmy ''01-01-1500''" "to_datetime (Str ''01-01-1500'') = None"
    "matches_dmy ''31-02-2025''" "to_datetime (Str ''31-02-2025'') = None"
    by code_simp+
  have i: "index_of ''date'' (columns \<lparr>columns = [''date'', ''state''],
        rows = [[Str ''01-01-1500'', Str ''Goa''], [Str ''31-02-2025'', Str ''Goa'']]\<rparr>) = Some 0"
    by simp
  show ?thesis
    unfolding convert_dates_rows [OF i] by (simp add: a strftime_ymd_def)
qed

text \<open>
  Claim C7, amended. Where the frame has a \<open>date\<close> column, date conversion does not
  raise: it returns the frame with the same columns and the same rows in the same order,
  each row changed in its date cell only. A date cell is rewritten exactly when it is a
  text made of a day, a dash, a month, a dash and a four-digit year as the format
  \<open>%d-%m-%Y\<close> reads them, the day is one of that month of that year, and the day lies
  from 1677-09-22 to 2262-04-11, the timestamps pandas can hold. The cell then becomes
  the ten characters \<open>YYYY-MM-DD\<close> of the very day written: the year, month and day read
  from the input are the numbers printed, and a day written as \<open>DD-MM-YYYY\<close> comes out
  with the same digits in the order year, month, day. Every other cell, a missing value
  and a number included, becomes the missing value.
\<close>

theorem convert_dates_spec:
  "(index_of ''date'' (columns df) = Some j \<longrightarrow>
      convert_dates df =
        Inr (df\<lparr>rows := map (\<lambda>r. r[j := strftime_ymd (to_datetime (r ! j))]) (rows df)\<rparr>))
   \<and> (to_datetime v = Some (y, m, d) \<longleftrightarrow>
        (\<exists>dt mt yt. v = Str (dt @ ''-'' @ mt @ ''-'' @ yt)
           \<and> matches_d dt \<and> matches_m mt \<and> matches_Y yt
           \<and> d = int_of_digits (filter isdigit dt) \<and> m = int_of_digits mt \<and> y = int_of_digits yt
           \<and> d \<le> days_in_month y m \<and> in_timestamp_range (y, m, d)))
   \<and> (to_datetime v = Some (y, m, d) \<longrightarrow>
        strftime_ymd (to_datetime v)
          = Str (str_nat y @ ''-'' @ zfill 2 (str_nat m) @ ''-'' @ zfill 2 (str_nat d))
        \<and> length (str_nat y) = 4 \<and> length (zfill 2 (str_nat m)) = 2
        \<and> length (zfill 2 (str_nat d)) = 2
        \<and> list_all isdigit (str_nat y @ zfill 2 (str_nat m) @ zfill 2 (str_nat d))
        \<and> int_of_digits (str_nat y) = y \<and> int_of_digits (zfill 2 (str_nat m)) = m
        \<and> int_of_digits (zfill 2 (str_nat d)) = d
        \<and> 1 \<le> m \<and> m \<le> 12 \<and> 1 \<le> d \<and> d \<le> days_in_month y m
        \<and> in_timestamp_range (y, m, d))
   \<and> (1 \<le> m \<and> m \<le> 12 \<and> 1 \<le> d \<and> d \<le> days_in_month y m \<and> in_timestamp_range (y, m, d)
        \<and> (day = str_nat d \<or> day = zfill 2 (str_nat d))
        \<and> (month = str_nat m \<or> month = zfill 2 (str_nat m)) \<longrightarrow>
        strftime_ymd (to_datetime (Str (day @ ''-'' @ month @ ''-'' @ str_nat y)))
          = Str (str_nat y @ ''-'' @ zfill 2 (str_nat m) @ ''-'' @ zfill 2 (str_nat d)))
   \<and> (strftime_ymd (to_datetime v) = NaN \<longleftrightarrow> to_datetime v = None)
   \<and> to_datetime NaN = None \<and> to_datetime (Num i) = None \<and> to_datetime (Float i) = None"
proof (intro conjI impI)
  assume "index_of ''date'' (columns df) = Some j"
  then show "convert_dates df =
        Inr (df\<lparr>rows := map (\<lambda>r. r[j := strftime_ymd (to_datetime (r ! j))]) (rows df)\<rparr>)"
    by (rule convert_dates_rows)
next
  show "to_datetime v = Some (y, m, d) \<longleftrightarrow>
        (\<exists>dt mt yt. v = Str (dt @ ''-'' @ mt @ ''-'' @ yt)
           \<and> matches_d dt \<and> matches_m mt \<and> matches_Y yt
           \<and> d = int_of_digits (filter isdigit dt) \<and> m = int_of_digits mt \<and> y = int_of_digits yt
           \<and> d \<le> days_in_month y m \<and> in_timestamp_range (y, m, d))"
    by (rule to_datetime_iff)
next
  show "strftime_ymd (to_datetime v) = NaN \<longleftrightarrow> to_datetime v = None"
    by (auto simp: strftime_ymd_def split: option.splits)
next
  show "to_datetime NaN = None" "to_datetime (Num i) = None" "to_datetime (Float i) = None"
    by (rule to_datetime_not_text)+
next
  assume t: "to_datetime v = Some (y, m, d)"
  then have s: "strptime_dmy (cell_str v) = Some (y, m, d)"
    by (simp add: to_datetime_def split: if_splits)
  from strptime_dmy_Some [OF s]
  have r: "1677 \<le> y" "y \<le> 2262" "1 \<le> m" "m \<le> 12" "1 \<le> d" "d \<le> days_in_month y m"
    by simp_all
  from r(6) days_in_month_le [of y m] have d: "d < 100" by simp
  from r have ly: "length (str_nat y) = 4" by (intro str_nat_length_4) simp_all
  from r(4) have lm: "length (zfill 2 (str_nat m)) = 2" by (intro zfill_2_length) simp
  from d have ld: "length (zfill 2 (str_nat d)) = 2" by (rule zfill_2_length)
  show "strftime_ymd (to_datetime v)
          = Str (str_nat y @ ''-'' @ zfill 2 (str_nat m) @ ''-'' @ zfill 2 (str_nat d))"
    using t r(1,2) by (simp add: strftime_ymd_Some)
  show "length (str_nat y) = 4" by (rule ly)
  show "length (zfill 2 (str_nat m)) = 2" by (rule lm)
  show "length (zfill 2 (str_nat d)) = 2" by (rule ld)
  show "list_all isdigit (str_nat y @ zfill 2 (str_nat m) @ zfill 2 (str_nat d))"
    by (simp add: str_nat_digits zfill_digits)
  show "int_of_digits (str_nat y) = y" by (rule int_of_digits_str_nat)
  show "int_of_digits (zfill 2 (str_nat m)) = m" by (rule int_of_digits_zfill_2)
  show "int_of_digits (zfill 2 (str_nat d)) = d" by (rule int_of_digits_zfill_2)
  show "1 \<le> m" "m \<le> 12" "1 \<le> d" "d \<le> days_in_month y m" by (rule r)+
  from s show "in_timestamp_range (y, m, d)" unfolding strptime_dmy_iff by blast
next
  assume a: "1 \<le> m \<and> m \<le> 12 \<and> 1 \<le> d \<and> d \<le> days_in_month y m \<and> in_timestamp_range (y, m, d)
        \<and> (day = str_nat d \<or> day = zfill 2 (str_nat d))
        \<and> (month = str_nat m \<or> month = zfill 2 (str_nat m))"
  then have "strptime_dmy (day @ ''-'' @ month @ ''-'' @ str_nat y) = Some (y, m, d)"
    by (intro strptime_dmy_written) simp_all
  moreover from a timestamp_range_year [of y m d] have "1000 \<le> y" "y < 10000" by simp_all
  ultimately show "strftime_ymd (to_datetime (Str (day @ ''-'' @ month @ ''-'' @ str_nat y)))
          = Str (str_nat y @ ''-'' @ zfill 2 (str_nat m) @ ''-'' @ zfill 2 (str_nat d))"
    by (simp add: to_datetime_def cell_str_def strftime_ymd_Some)
qed

theorem convert_dates_spec_witness:
  "convert_dates \<lparr>columns = [''date'', ''state''],
       rows = [[Str ''15-03-2025'', Str ''Goa''], [Str ''5-3-2025'', Str ''Goa''],
               [Str ''2025-03-15'', Str ''Goa''], [Str ''31-02-2025'', Str ''Goa''],
               [Str ''01-01-1500'', Str ''Goa''], [NaN, Str ''Goa''],
               [Num 15032025, Str ''Goa'']]\<rparr>
     = Inr \<lparr>columns = [''date'', ''state''],
       rows = [[Str ''2025-03-15'', Str ''Goa''], [Str ''2025-03-05'', Str ''Goa''],
               [NaN, Str ''Goa''], [NaN, Str ''Goa''],
               [NaN, Str ''Goa''], [NaN, Str ''Goa''],
               [NaN, Str ''Goa'']]\<rparr>
   \<and> to_datetime (Str ''15-03-2025'') = Some (2025, 3, 15)
   \<and> to_datetime (Str ''5-3-2025'') = Some (2025, 3, 5)"
proof -
  let ?df = "\<lparr>columns = [''date'', ''state''],
       rows = [[Str ''15-03-2025'', Str ''Goa''], [Str ''5-3-2025'', Str ''Goa''],
               [Str ''2025-03-15'', Str ''Goa''], [Str ''31-02-2025'', Str ''Goa''],
               [Str ''01-01-1500'', Str ''Goa''], [NaN, Str ''Goa''],
               [Num 15032025, Str ''Goa'']]\<rparr>"
  have i: "index_of ''date'' (columns ?df) = Some 0" by simp
  have n: "str_nat 2025 = ''2025''" "str_nat 15 = ''15''" "str_nat 3 = ''3''" "str_nat 5 = ''5''"
    "zfill 2 ''15'' = ''15''" "zfill 2 ''3'' = ''03''" "zfill 2 ''5'' = ''05''"
    by (simp_all add: py_str_eval zfill_def)
  have r: "in_timestamp_range (2025, 3, 15)" "in_timestamp_range (2025, 3, 5)"
    "days_in_month 2025 3 = 31"
    by (simp_all add: in_timestamp_range_def less_eq_prod_def days_in_month_def)
  have p: "to_datetime (Str ''2025-03-15'') = None" "to_datetime (Str ''31-02-2025'') = None"
    "to_datetime (Str ''01-01-1500'') = None"
    by code_simp+
  have m: "matches_d ''15'' \<and> matches_m ''03'' \<and> matches_Y ''2025''
      \<and> 15 = int_of_digits (filter isdigit ''15'') \<and> 3 = int_of_digits ''03''
      \<and> 2025 = int_of_digits ''2025''"
    "matches_d ''5'' \<and> matches_m ''3'' \<and> matches_Y ''2025''
      \<and> 5 = int_of_digits (filter isdigit ''5'') \<and> 3 = int_of_digits ''3''
      \<and> 2025 = int_of_digits ''2025''"
    by code_simp+
  note t = convert_dates_spec [of ?df 0]
  have h1: "1 \<le> (3::nat) \<and> (3::nat) \<le> 12 \<and> 1 \<le> (15::nat) \<and> 15 \<le> days_in_month 2025 3
        \<and> in_timestamp_range (2025, 3, 15)
        \<and> (''15'' = str_nat 15 \<or> ''15'' = zfill 2 (str_nat 15))
        \<and> (''03'' = str_nat 3 \<or> ''03'' = zfill 2 (str_nat 3))"
    by (simp add: n r)
  have h2: "1 \<le> (3::nat) \<and> (3::nat) \<le> 12 \<and> 1 \<le> (5::nat) \<and> 5 \<le> days_in_month 2025 3
        \<and> in_timestamp_range (2025, 3, 5)
        \<and> (''5'' = str_nat 5 \<or> ''5'' = zfill 2 (str_nat 5))
        \<and> (''3'' = str_nat 3 \<or> ''3'' = zfill 2 (str_nat 3))"
    by (simp add: n r)
  from t [of _ 2025 3 15 "''15''" "''03''", THEN conjunct2, THEN conjunct2, THEN conjunct2,
      THEN conjunct1, rule_format, OF h1]
  have a: "strftime_ymd (to_datetime (Str ''15-03-2025'')) = Str ''2025-03-15''"
    by (simp add: n)
  from t [of _ 2025 3 5 "''5''" "''3''", THEN conjunct2, THEN conjunct2, THEN conjunct2,
      THEN conjunct1, rule_format, OF h2]
  have b: "strftime_ymd (to_datetime (Str ''5-3-2025'')) = Str ''2025-03-05''"
    by (simp add: n)
  have e1: "\<exists>dt mt yt. Str ''15-03-2025'' = Str (dt @ ''-'' @ mt @ ''-'' @ yt)
           \<and> matches_d dt \<and> matches_m mt \<and> matches_Y yt
           \<and> 15 = int_of_digits (filter isdigit dt) \<and> 3 = int_of_digits mt
           \<and> 2025 = int_of_digits yt
           \<and> 15 \<le> days_in_month 2025 3 \<and> in_timestamp_range (2025, 3, 15)"
    using m(1) r by (intro exI [of _ "''15''"] exI [of _ "''03''"] exI [of _ "''2025''"]) simp
  have e2: "\<exists>dt mt yt. Str ''5-3-2025'' = Str (dt @ ''-'' @ mt @ ''-'' @ yt)
           \<and> matches_d dt \<and> matches_m mt \<and> matches_Y yt
           \<and> 5 = int_of_digits (filter isdigit dt) \<and> 3 = int_of_digits mt
           \<and> 2025 = int_of_digits yt
           \<and> 5 \<le> days_in_month 2025 3 \<and> in_timestamp_range (2025, 3, 5)"
    using m(2) r by (intro exI [of _ "''5''"] exI [of _ "''3''"] exI [of _ "''2025''"]) simp
  from e1 t [of "Str ''15-03-2025''" 2025 3 15, THEN conjunct2, THEN conjunct1]
  have f1: "to_datetime (Str ''15-03-2025'') = Some (2025, 3, 15)" by (rule rev_iffD2)
  from e2 t [of "Str ''5-3-2025''" 2025 3 5, THEN conjunct2, THEN conjunct1]
  have f2: "to_datetime (Str ''5-3-2025'') = Some (2025, 3, 5)" by (rule rev_iffD2)
  note nan = t [THEN conjunct2, THEN conjunct2, THEN conjunct2, THEN conjunct2, THEN conjunct1]
  from p(1) nan [of "Str ''2025-03-15''"]
  have c1: "strftime_ymd (to_datetime (Str ''2025-03-15'')) = NaN" by (rule rev_iffD2)
  from p(2) nan [of "Str ''31-02-2025''"]
  have c2: "strftime_ymd (to_datetime (Str ''31-02-2025'')) = NaN" by (rule rev_iffD2)
  from p(3) nan [of "Str ''01-01-1500''"]
  have c3: "strftime_ymd (to_datetime (Str ''01-01-1500'')) = NaN" by (rule rev_iffD2)
  note rest = t [THEN conjunct2, THEN conjunct2, THEN conjunct2, THEN conjunct2, THEN conjunct2]
  from rest [THEN conjunct1] nan [of NaN]
  have c4: "strftime_ymd (to_datetime NaN) = NaN" by (rule rev_iffD2)
  from rest [of 15032025, THEN conjunct2, THEN conjunct1] nan [of "Num 15032025"]
  have c5: "strftime_ymd (to_datetime (Num 15032025)) = NaN" by (rule rev_iffD2)
  from t [THEN conjunct1, rule_format, OF i]
  have "convert_dates ?df = Inr \<lparr>columns = [''date'', ''state''],
       rows = [[Str ''2025-03-15'', Str ''Goa''], [Str ''2025-03-05'', Str ''Goa''],
               [NaN, Str ''Goa''], [NaN, Str ''Goa''],
               [NaN, Str ''Goa''], [NaN, Str ''Goa''],
               [NaN, Str ''Goa'']]\<rparr>"
    by (simp add: a b c1 c2 c3 c4 c5)
  with f1 f2 show ?thesis by (intro conjI)
qed

section \<open>Sorting and column order\<close>

lemma sort_values_Inr:
  "sort_values df by = Inr out \<Longrightarrow>
     set by \<subseteq> set (columns df) \<and>
     out = df\<lparr>rows := mergesort_by (row_key (map (\<lambda>c. the (index_of c (columns df))) by)) (rows df)\<rparr>"
proof -
  assume a: "sort_values df by = Inr out"
  then obtain "is" where l: "lookup_all (columns df) by = Inr is"
    by (auto simp: sort_values_def bind_err_def split: sum.splits)
  from lookup_all_Inr [OF l] a l show ?thesis
    by (auto simp: sort_values_def bind_err_def split: if_splits)
qed

lemma cell_at_index: "c \<in> set cols \<Longrightarrow> r ! the (index_of c cols) = cell_at cols c r"
  using index_of_mem [of c cols] by (auto simp: cell_at_def)

lemma row_key_names:
  "set by \<subseteq> set cols \<Longrightarrow>
     row_key (map (\<lambda>c. the (index_of c cols)) by) r = map (\<lambda>c. cell_key (cell_at cols c r)) by"
  by (auto simp: row_key_def cell_at_index)

lemma sort_values_sort_cols:
  assumes "sort_values df sort_cols = Inr out"
  shows "out = df\<lparr>rows := mergesort_by (sort_key_of (columns df)) (rows df)\<rparr>"
proof -
  from sort_values_Inr [OF assms]
  have s: "set sort_cols \<subseteq> set (columns df)"
    and o: "out = df\<lparr>rows := mergesort_by
          (row_key (map (\<lambda>c. the (index_of c (columns df))) sort_cols)) (rows df)\<rparr>"
    by simp_all
  have "row_key (map (\<lambda>c. the (index_of c (columns df))) sort_cols) = sort_key_of (columns df)"
    by (rule ext) (simp add: row_key_names [OF s] sort_key_of_def)
  with o show ?thesis by simp
qed

lemma sort_values_ok:
  assumes "set by \<subseteq> set (columns df)"
  shows "\<exists>out. sort_values df by = Inr out"
  by (simp add: sort_values_def bind_err_def lookup_all_ok [OF assms])

lemma cell_key_text: "(cell_key (Str s) \<le> cell_key (Str t)) = (s \<le> t)"
  by (simp add: cell_key_def)

lemma cell_key_missing_last: "cell_key (Str s) < cell_key NaN" "cell_key (Num i) < cell_key NaN"
  by (simp_all add: cell_key_def)

lemma key_triple_le:
  "([a, b, c] \<le> [a', b', c']) = (a < a' \<or> a = a' \<and> (b < b' \<or> b = b' \<and> c \<le> c'))"
  for a :: "nat \<times> int \<times> string"
  by auto

lemma sort_key_of_cells:
  "sort_key_of cols r =
     [cell_key (cell_at cols ''date'' r), cell_key (cell_at cols ''state'' r),
      cell_key (cell_at cols ''district'' r)]"
  by (simp add: sort_key_of_def sort_cols_def)

text \<open>
  Claim C4. Sorting by \<open>date\<close>, \<open>state\<close>, \<open>district\<close> returns the same rows in ascending
  order of the composite key: first by date, rows with equal dates by state, rows with
  equal dates and states by district, texts compared character by character by code
  point (a missing cell after every text). The sort is stable: the rows that share any
  one key come out in the order in which they went in. It returns whenever the three
  columns exist and hold no numbers, as they do after formatting.
\<close>

theorem sort_values_spec:
  "(sort_values df sort_cols = Inr out \<longrightarrow>
      columns out = columns df
      \<and> sorted (map (sort_key_of (columns df)) (rows out))
      \<and> mset (rows out) = mset (rows df)
      \<and> filter (\<lambda>r. sort_key_of (columns df) r = k) (rows out)
          = filter (\<lambda>r. sort_key_of (columns df) r = k) (rows df)
      \<and> rows out = sort_key (sort_key_of (columns df)) (rows df))
   \<and> (set sort_cols \<subseteq> set (columns df)
        \<and> list_all (\<lambda>r. list_all (\<lambda>c. \<not> is_num (cell_at (columns df) c r)) sort_cols) (rows df)
        \<longrightarrow> (\<exists>sorted_df. sort_values df sort_cols = Inr sorted_df))
   \<and> sort_key_of cols r =
        [cell_key (cell_at cols ''date'' r), cell_key (cell_at cols ''state'' r),
         cell_key (cell_at cols ''district'' r)]
   \<and> (([a, b, c] :: (nat \<times> int \<times> string) list) \<le> [a', b', c'])
        = (a < a' \<or> a = a' \<and> (b < b' \<or> b = b' \<and> c \<le> c'))
   \<and> (cell_key (Str s) \<le> cell_key (Str t)) = (s \<le> t)
   \<and> cell_key (Str s) < cell_key NaN
   \<and> ((x # s < y # t) = ((of_char x :: nat) < of_char y \<or> x = y \<and> s < t))
   \<and> ([] < y # t)"
proof (intro conjI impI)
  assume a: "sort_values df sort_cols = Inr out"
  note o = sort_values_sort_cols [OF a]
  show "columns out = columns df" by (simp add: o)
  show "sorted (map (sort_key_of (columns df)) (rows out))"
    by (simp add: o mergesort_by_sorted)
  show "mset (rows out) = mset (rows df)" by (simp add: o mergesort_by_mset)
  show "filter (\<lambda>r. sort_key_of (columns df) r = k) (rows out)
          = filter (\<lambda>r. sort_key_of (columns df) r = k) (rows df)"
    by (simp add: o mergesort_by_stable)
  show "rows out = sort_key (sort_key_of (columns df)) (rows df)"
    by (simp add: o mergesort_by_sort_key)
next
  assume "set sort_cols \<subseteq> set (columns df)
        \<and> list_all (\<lambda>r. list_all (\<lambda>c. \<not> is_num (cell_at (columns df) c r)) sort_cols) (rows df)"
  then show "\<exists>sorted_df. sort_values df sort_cols = Inr sorted_df"
    using sort_values_ok [of sort_cols df] by blast
next
  show "sort_key_of cols r =
        [cell_key (cell_at cols ''date'' r), cell_key (cell_at cols ''state'' r),
         cell_key (cell_at cols ''district'' r)]"
    by (rule sort_key_of_cells)
  show "(([a, b, c] :: (nat \<times> int \<times> string) list) \<le> [a', b', c'])
        = (a < a' \<or> a = a' \<and> (b < b' \<or> b = b' \<and> c \<le> c'))"
    by (rule key_triple_le)
  show "(cell_key (Str s) \<le> cell_key (Str t)) = (s \<le> t)" by (rule cell_key_text)
  show "cell_key (Str s) < cell_key NaN" by (rule cell_key_missing_last)
  show "(x # s < y # t) = ((of_char x :: nat) < of_char y \<or> x = y \<and> s < t)"
    by (simp add: less_char_def)
  show "[] < y # t" by simp
qed

theorem sort_values_spec_witness:
  "sort_values \<lparr>columns = [''date'', ''state'', ''district'', ''pincode''],
       rows = [[Str ''2025-03-02'', Str ''Goa'', Str ''North Goa'', Str ''403001''],
               [NaN, Str ''Goa'', Str ''North Goa'', Str ''403003''],
               [Str ''2025-03-01'', Str ''Goa'', Str ''South Goa'', Str ''403002''],
               [Str ''2025-03-02'', Str ''Goa'', Str ''North Goa'', Str ''403000'']]\<rparr> sort_cols
     = Inr \<lparr>columns = [''date'', ''state'', ''district'', ''pincode''],
       rows = [[Str ''2025-03-01'', Str ''Goa'', Str ''South Goa'', Str ''403002''],
               [Str ''2025-03-02'', Str ''Goa'', Str ''North Goa'', Str ''403001''],
               [Str ''2025-03-02'', Str ''Goa'', Str ''North Goa'', Str ''403000''],
               [NaN, Str ''Goa'', Str ''North Goa'', Str ''403003'']]\<rparr>
   \<and> filter (\<lambda>r. sort_key_of [''date'', ''state'', ''district'', ''pincode''] r
                 = sort_key_of [''date'', ''state'', ''district'', ''pincode'']
                     [Str ''2025-03-02'', Str ''Goa'', Str ''North Goa'', Str ''403001''])
        [[Str ''2025-03-01'', Str ''Goa'', Str ''South Goa'', Str ''403002''],
         [Str ''2025-03-02'', Str ''Goa'', Str ''North Goa'', Str ''403001''],
         [Str ''2025-03-02'', Str ''Goa'', Str ''North Goa'', Str ''403000''],
         [NaN, Str ''Goa'', Str ''North Goa'', Str ''403003'']]
     = [[Str ''2025-03-02'', Str ''Goa'', Str ''North Goa'', Str ''403001''],
        [Str ''2025-03-02'', Str ''Goa'', Str ''North Goa'', Str ''403000'']]"
proof -
  let ?cols = "[''date'', ''state'', ''district'', ''pincode'']"
  let ?r1 = "[Str ''2025-03-02'', Str ''Goa'', Str ''North Goa'', Str ''403001'']"
  let ?df = "\<lparr>columns = ?cols,
       rows = [?r1,
               [NaN, Str ''Goa'', Str ''North Goa'', Str ''403003''],
               [Str ''2025-03-01'', Str ''Goa'', Str ''South Goa'', Str ''403002''],
               [Str ''2025-03-02'', Str ''Goa'', Str ''North Goa'', Str ''403000'']]\<rparr>"
  let ?out = "\<lparr>columns = ?cols,
       rows = [[Str ''2025-03-01'', Str ''Goa'', Str ''South Goa'', Str ''403002''],
               ?r1,
               [Str ''2025-03-02'', Str ''Goa'', Str ''North Goa'', Str ''403000''],
               [NaN, Str ''Goa'', Str ''North Goa'', Str ''403003'']]\<rparr>"
  have h: "set sort_cols \<subseteq> set (columns ?df)
        \<and> list_all (\<lambda>r. list_all (\<lambda>c. \<not> is_num (cell_at (columns ?df) c r)) sort_cols) (rows ?df)"
    by code_simp
  have e: "sort_values ?df sort_cols = Inr ?out" by code_simp
  have f: "filter (\<lambda>r. sort_key_of ?cols r = sort_key_of ?cols ?r1) (rows ?df)
      = [?r1, [Str ''2025-03-02'', Str ''Goa'', Str ''North Goa'', Str ''403000'']]"
    by code_simp
  note t = sort_values_spec [of ?df ?out "sort_key_of ?cols ?r1"]
  from t [THEN conjunct2, THEN conjunct1, rule_format, OF h]
  obtain sorted_df where "sort_values ?df sort_cols = Inr sorted_df" ..
  from t [THEN conjunct1, rule_format, OF e]
  have "filter (\<lambda>r. sort_key_of (columns ?df) r = sort_key_of ?cols ?r1) (rows ?out)
          = filter (\<lambda>r. sort_key_of (columns ?df) r = sort_key_of ?cols ?r1) (rows ?df)"
    by (elim conjE)
  with f have "filter (\<lambda>r. sort_key_of ?cols r = sort_key_of ?cols ?r1) (rows ?out)
      = [?r1, [Str ''2025-03-02'', Str ''Goa'', Str ''North Goa'', Str ''403000'']]"
    by simp
  with e show ?thesis by simp
qed

lemma reorder_columns_Inr:
  assumes "reorder_columns df = Inr out"
  shows "''state_original'' \<in> set (columns df)"
    and "columns out = filter (\<lambda>c. c \<noteq> ''state_original'') (columns df) @ [''state_original'']"
    and "rows out = map (\<lambda>r. map (\<lambda>c. r ! the (index_of c (columns df))) (columns out)) (rows df)"
proof -
  let ?cs = "filter (\<lambda>c. c \<noteq> ''state_original'') (columns df) @ [''state_original'']"
  from assms obtain "is" where l: "lookup_all (columns df) ?cs = Inr is"
    and o: "out = \<lparr>columns = ?cs, rows = map (\<lambda>r. map (\<lambda>i. r ! i) is) (rows df)\<rparr>"
    by (auto simp: reorder_columns_def select_columns_def bind_err_def split: sum.splits)
  from lookup_all_Inr [OF l] show "''state_original'' \<in> set (columns df)" by simp
  from o show "columns out = ?cs" by simp
  from lookup_all_Inr [OF l] o
  show "rows out = map (\<lambda>r. map (\<lambda>c. r ! the (index_of c (columns df))) (columns out)) (rows df)"
    by (simp add: comp_def)
qed

lemma reorder_columns_ok:
  "''state_original'' \<in> set (columns df) \<Longrightarrow> \<exists>out. reorder_columns df = Inr out"
  by (simp add: reorder_columns_def select_columns_def bind_err_def lookup_all_ok subset_iff)

lemma reorder_cell_at:
  assumes "''state_original'' \<in> set cols"
  shows "cell_at (filter (\<lambda>c. c \<noteq> ''state_original'') cols @ [''state_original'']) c
           (map (\<lambda>c. r ! the (index_of c cols))
              (filter (\<lambda>c. c \<noteq> ''state_original'') cols @ [''state_original'']))
         = cell_at cols c r"
proof -
  let ?cs = "filter (\<lambda>c. c \<noteq> ''state_original'') cols @ [''state_original'']"
  from assms have s: "set ?cs = set cols" by auto
  then have "set ?cs \<subseteq> set cols" by simp
  from cell_at_select [OF this, of c r]
  have "cell_at ?cs c (map (\<lambda>c. r ! the (index_of c cols)) ?cs)
      = (if c \<in> set cols then cell_at cols c r else NaN)"
    by (simp only: s)
  moreover have "cell_at cols c r = NaN" if "c \<notin> set cols"
    using that index_of_None [of c cols] by (simp add: cell_at_def)
  ultimately show ?thesis by simp
qed

lemma reorder_last:
  assumes "''state_original'' \<in> set cols"
  shows "last (map (\<lambda>c. r ! the (index_of c cols))
              (filter (\<lambda>c. c \<noteq> ''state_original'') cols @ [''state_original'']))
         = cell_at cols ''state_original'' r"
  using assms by (simp add: cell_at_index)

lemma clean_frame_stages:
  assumes "clean_frame raw = Inr out"
  obtains d1 d2 d3 d4 d5 where
    "standardize_states (drop_duplicates raw) = Inr d1"
    "standardize_districts d1 = Inr d2"
    "convert_dates d2 = Inr d3"
    "validate_pincodes d3 = Inr d4"
    "sort_values d4 sort_cols = Inr d5"
    "reorder_columns d5 = Inr out"
  using assms
  by (auto simp: clean_frame_def format_and_sort_def bind_err_def split: sum.splits)

lemma clean_frame_sorted:
  assumes "clean_frame raw = Inr out"
  shows "sorted (map (sort_key_of (columns out)) (rows out))"
proof -
  from assms obtain d4 d5 where s: "sort_values d4 sort_cols = Inr d5"
    and r: "reorder_columns d5 = Inr out"
    by (rule clean_frame_stages)
  note so = reorder_columns_Inr [OF r]
  have k: "sort_key_of (columns out) (map (\<lambda>c. x ! the (index_of c (columns d5))) (columns out))
      = sort_key_of (columns d5) x" for x
    unfolding sort_key_of_def so(2) by (simp only: reorder_cell_at [OF so(1)])
  from sort_values_sort_cols [OF s]
  have "sorted (map (sort_key_of (columns d5)) (rows d5))"
    by (simp add: mergesort_by_sorted)
  moreover have "map (sort_key_of (columns out)) (rows out)
      = map (sort_key_of (columns d5)) (rows d5)"
    by (simp only: so(3) map_map comp_def k)
  ultimately show ?thesis by simp
qed

lemma missing_date_key:
  "sort_key_of cols r \<le> sort_key_of cols r' \<Longrightarrow> cell_at cols ''date'' r = NaN \<Longrightarrow>
     cell_at cols ''date'' r' = NaN"
  by (cases "cell_at cols ''date'' r'")
     (auto simp: sort_key_of_cells cell_key_def)

lemma to_datetime_examples:
  "to_datetime (Str ''31-02-2025'') = None"
  "to_datetime (Str ''02-03-2025'') = Some (2025, 3, 2)"
  "to_datetime (Str ''01-03-2025'') = Some (2025, 3, 1)"
  by code_simp+

lemma strftime_examples:
  "strftime_ymd None = NaN"
  "strftime_ymd (Some (2025, 3, 2)) = Str ''2025-03-02''"
  "strftime_ymd (Some (2025, 3, 1)) = Str ''2025-03-01''"
  "strftime_ymd (Some (2025, 3, Suc 0)) = Str ''2025-03-01''"
  by (simp_all add: strftime_ymd_def py_str_eval zfill_def)

lemma pincode_examples:
  "zfill 6 (cell_str (Num 403001)) = ''403001''"
  "zfill 6 (cell_str (Num 403002)) = ''403002''"
  "zfill 6 (cell_str (Num 700001)) = ''700001''"
  "zfill 6 (cell_str (Num 711101)) = ''711101''"
  by (simp_all add: cell_str_def py_str_eval zfill_def)

lemma clean_frame_example:
  "clean_frame \<lparr>columns = [''date'', ''state'', ''district'', ''pincode''],
     rows = [[Str ''31-02-2025'', Str ''Goa'', Str ''North Goa'', Num 403001],
             [Str ''02-03-2025'', Str ''Goa'', Str ''north goa '', Num 403002],
             [Str ''02-03-2025'', Str ''Goa'', Str ''North Goa'', Num 403002],
             [Str ''31-02-2025'', Str ''Goa'', Str ''North Goa'', Num 403001]]\<rparr>
   = Inr \<lparr>columns = [''date'', ''state'', ''district'', ''pincode'', ''state_original''],
     rows = [[Str ''2025-03-02'', Str ''Goa'', Str ''North Goa'', Str ''403002'', Str ''Goa''],
             [Str ''2025-03-02'', Str ''Goa'', Str ''North Goa'', Str ''403002'', Str ''Goa''],
             [NaN, Str ''Goa'', Str ''North Goa'', Str ''403001'', Str ''Goa'']]\<rparr>"
proof -
  let ?cols = "[''date'', ''state'', ''district'', ''pincode'', ''state_original'']"
  let ?d2 = "\<lparr>columns = ?cols,
     rows = [[Str ''31-02-2025'', Str ''Goa'', Str ''North Goa'', Num 403001, Str ''Goa''],
             [Str ''02-03-2025'', Str ''Goa'', Str ''North Goa'', Num 403002, Str ''Goa''],
             [Str ''02-03-2025'', Str ''Goa'', Str ''North Goa'', Num 403002, Str ''Goa'']]\<rparr>"
  let ?d3 = "\<lparr>columns = ?cols,
     rows = [[NaN, Str ''Goa'', Str ''North Goa'', Num 403001, Str ''Goa''],
             [Str ''2025-03-02'', Str ''Goa'', Str ''North Goa'', Num 403002, Str ''Goa''],
             [Str ''2025-03-02'', Str ''Goa'', Str ''North Goa'', Num 403002, Str ''Goa'']]\<rparr>"
  let ?d4 = "\<lparr>columns = ?cols,
     rows = [[NaN, Str ''Goa'', Str ''North Goa'', Str ''403001'', Str ''Goa''],
             [Str ''2025-03-02'', Str ''Goa'', Str ''North Goa'', Str ''403002'', Str ''Goa''],
             [Str ''2025-03-02'', Str ''Goa'', Str ''North Goa'', Str ''403002'', Str ''Goa'']]\<rparr>"
  let ?out = "\<lparr>columns = ?cols,
     rows = [[Str ''2025-03-02'', Str ''Goa'', Str ''North Goa'', Str ''403002'', Str ''Goa''],
             [Str ''2025-03-02'', Str ''Goa'', Str ''North Goa'', Str ''403002'', Str ''Goa''],
             [NaN, Str ''Goa'', Str ''North Goa'', Str ''403001'', Str ''Goa'']]\<rparr>"
  have s12: "bind_err (standardize_states (drop_duplicates
      \<lparr>columns = [''date'', ''state'', ''district'', ''pincode''],
       rows = [[Str ''31-02-2025'', Str ''Goa'', Str ''North Goa'', Num 403001],
               [Str ''02-03-2025'', Str ''Goa'', Str ''north goa '', Num 403002],
               [Str ''02-03-2025'', Str ''Goa'', Str ''North Goa'', Num 403002],
               [Str ''31-02-2025'', Str ''Goa'', Str ''North Goa'', Num 403001]]\<rparr>))
      standardize_districts = Inr ?d2"
    by code_simp
  have i3: "index_of ''date'' (columns ?d2) = Some 0" by simp
  have s3: "convert_dates ?d2 = Inr ?d3"
    unfolding convert_dates_rows [OF i3]
    by (simp add: to_datetime_examples strftime_examples)
  have i4: "index_of ''pincode'' (columns ?d3) = Some 3" by simp
  have s4: "validate_pincodes ?d3 = Inr ?d4"
    unfolding validate_pincodes_rows [OF i4]
    by (simp add: float_column_def is_text_def is_float_def dtype_str_False pincode_examples)
  have s56: "bind_err (sort_values ?d4 sort_cols) reorder_columns = Inr ?out"
    by code_simp
  from s12 obtain d1 where a: "standardize_states (drop_duplicates
      \<lparr>columns = [''date'', ''state'', ''district'', ''pincode''],
       rows = [[Str ''31-02-2025'', Str ''Goa'', Str ''North Goa'', Num 403001],
               [Str ''02-03-2025'', Str ''Goa'', Str ''north goa '', Num 403002],
               [Str ''02-03-2025'', Str ''Goa'', Str ''North Goa'', Num 403002],
               [Str ''31-02-2025'', Str ''Goa'', Str ''North Goa'', Num 403001]]\<rparr>) = Inr d1"
    and b: "standardize_districts d1 = Inr ?d2"
    by (auto simp: bind_err_def split: sum.splits)
  show ?thesis
    unfolding clean_frame_def format_and_sort_def a
    by (simp add: bind_err_def b s3 s4 s56 [unfolded bind_err_def])
qed

section \<open>The pipeline for one dataset\<close>

lemma standardize_states_rows:
  assumes "standardize_states df = Inr out"
  shows "columns out =
      (if ''state_original'' \<in> set (columns df) then columns df
       else columns df @ [''state_original''])"
    and "\<exists>f. rows out = map f (rows df) \<and>
      (\<forall>r. length r = length (columns df) \<longrightarrow>
         length (f r) = length (columns out)
         \<and> (\<forall>c. cell_at (columns out) c (f r) =
               (if c = ''state'' then Str (standardize_state (cell_at (columns df) ''state'' r))
                else if c = ''state_original'' then cell_at (columns df) ''state'' r
                else cell_at (columns df) c r)))"
proof -
  let ?cols = "columns df"
  from assms obtain js where js: "index_of ''state'' ?cols = Some js"
    by (auto simp: standardize_states_def getitem_def bind_err_def split: option.splits)
  have ne: "''state'' \<noteq> ''state_original''" by simp
  have st: "r ! js = cell_at ?cols ''state'' r" for r
    by (simp add: cell_at_def js)
  have both: "(columns out =
      (if ''state_original'' \<in> set (columns df) then columns df
       else columns df @ [''state_original'']))
    \<and> (\<exists>f. rows out = map f (rows df) \<and>
      (\<forall>r. length r = length (columns df) \<longrightarrow>
         length (f r) = length (columns out)
         \<and> (\<forall>c. cell_at (columns out) c (f r) =
               (if c = ''state'' then Str (standardize_state (cell_at (columns df) ''state'' r))
                else if c = ''state_original'' then cell_at (columns df) ''state'' r
                else cell_at (columns df) c r))))"
  proof (cases "index_of ''state_original'' ?cols")
    case (Some io)
    then have m: "''state_original'' \<in> set ?cols"
      using index_of_None [of "''state_original''" ?cols] by auto
    let ?f = "\<lambda>r. (r[io := r ! js])[js := Str (standardize_state ((r[io := r ! js]) ! js))]"
    define df1 where "df1 = df\<lparr>rows := map (\<lambda>r. r[io := r ! js]) (rows df)\<rparr>"
    have a: "setitem df ''state_original'' (map (\<lambda>r. r ! js) (rows df)) = df1"
      unfolding df1_def by (rule setitem_old [OF Some])
    have js1: "index_of ''state'' (columns df1) = Some js" by (simp add: df1_def js)
    have b: "setitem df1 ''state'' (map (\<lambda>r. Str (standardize_state (r ! js))) (rows df1))
        = df1\<lparr>rows := map (\<lambda>r. r[js := Str (standardize_state (r ! js))]) (rows df1)\<rparr>"
      by (rule setitem_old [OF js1])
    from assms have "out = setitem df1 ''state''
        (map (\<lambda>r. Str (standardize_state (r ! js))) (rows df1))"
      by (simp add: standardize_states_def getitem_def bind_err_def js js1 a Let_def comp_def)
    with b have o: "out = df\<lparr>rows := map ?f (rows df)\<rparr>"
      by (simp add: df1_def comp_def)
    from o m have c: "columns out =
      (if ''state_original'' \<in> set (columns df) then columns df
       else columns df @ [''state_original''])" by simp
    have "length (?f r) = length (columns out)
         \<and> (\<forall>c. cell_at (columns out) c (?f r) =
               (if c = ''state'' then Str (standardize_state (cell_at ?cols ''state'' r))
                else if c = ''state_original'' then cell_at ?cols ''state'' r
                else cell_at ?cols c r))"
      if l: "length r = length ?cols" for r
    proof -
      from l have l1: "length (r[io := r ! js]) = length ?cols" by simp
      from index_of_neq [OF js Some ne] have d: "js \<noteq> io" .
      then have e: "(r[io := r ! js]) ! js = r ! js" by simp
      have "cell_at (columns out) c (?f r) =
          (if c = ''state'' then Str (standardize_state (r ! js))
           else if c = ''state_original'' then r ! js else cell_at ?cols c r)" for c
        using o by (simp add: cell_at_update [OF js l1] cell_at_update [OF Some l] e)
      moreover have "length (?f r) = length (columns out)" using l o by simp
      ultimately show ?thesis by (simp only: st) simp
    qed
    with o have "\<exists>f. rows out = map f (rows df) \<and>
      (\<forall>r. length r = length (columns df) \<longrightarrow>
         length (f r) = length (columns out)
         \<and> (\<forall>c. cell_at (columns out) c (f r) =
               (if c = ''state'' then Str (standardize_state (cell_at (columns df) ''state'' r))
                else if c = ''state_original'' then cell_at (columns df) ''state'' r
                else cell_at (columns df) c r)))"
      by (intro exI [of _ ?f]) simp
    with c show ?thesis by (rule conjI)
  next
    case None
    then have m: "''state_original'' \<notin> set ?cols" by (simp add: index_of_None)
    let ?f = "\<lambda>r. (r @ [r ! js])[js := Str (standardize_state ((r @ [r ! js]) ! js))]"
    have js': "index_of ''state'' (?cols @ [''state_original'']) = Some js"
      by (rule index_of_append_old [OF js])
    define df1 where "df1 = df\<lparr>columns := ?cols @ [''state_original''],
        rows := map (\<lambda>r. r @ [r ! js]) (rows df)\<rparr>"
    have a: "setitem df ''state_original'' (map (\<lambda>r. r ! js) (rows df)) = df1"
      unfolding df1_def by (rule setitem_new [OF None])
    have js1: "index_of ''state'' (columns df1) = Some js" by (simp add: df1_def js')
    have b: "setitem df1 ''state'' (map (\<lambda>r. Str (standardize_state (r ! js))) (rows df1))
        = df1\<lparr>rows := map (\<lambda>r. r[js := Str (standardize_state (r ! js))]) (rows df1)\<rparr>"
      by (rule setitem_old [OF js1])
    from assms have "out = setitem df1 ''state''
        (map (\<lambda>r. Str (standardize_state (r ! js))) (rows df1))"
      by (simp add: standardize_states_def getitem_def bind_err_def js js1 a Let_def comp_def)
    with b have o: "out = df\<lparr>columns := ?cols @ [''state_original''],
        rows := map ?f (rows df)\<rparr>"
      by (simp add: df1_def comp_def)
    from o m have c: "columns out =
      (if ''state_original'' \<in> set (columns df) then columns df
       else columns df @ [''state_original''])" by simp
    have "length (?f r) = length (columns out)
         \<and> (\<forall>c. cell_at (columns out) c (?f r) =
               (if c = ''state'' then Str (standardize_state (cell_at ?cols ''state'' r))
                else if c = ''state_original'' then cell_at ?cols ''state'' r
                else cell_at ?cols c r))"
      if l: "length r = length ?cols" for r
    proof -
      from l have l1: "length (r @ [r ! js]) = length (?cols @ [''state_original''])" by simp
      from index_of_Some [OF js] l have "js < length r" by simp
      then have e: "(r @ [r ! js]) ! js = r ! js" by (simp add: nth_append)
      have "cell_at (columns out) c (?f r) =
          (if c = ''state'' then Str (standardize_state (r ! js))
           else if c = ''state_original'' then r ! js else cell_at ?cols c r)" for c
        using o by (simp add: cell_at_update [OF js' l1] cell_at_append [OF None l] e)
      moreover have "length (?f r) = length (columns out)" using l o by simp
      ultimately show ?thesis by (simp only: st) simp
    qed
    with o have "\<exists>f. rows out = map f (rows df) \<and>
      (\<forall>r. length r = length (columns df) \<longrightarrow>
         length (f r) = length (columns out)
         \<and> (\<forall>c. cell_at (columns out) c (f r) =
               (if c = ''state'' then Str (standardize_state (cell_at (columns df) ''state'' r))
                else if c = ''state_original'' then cell_at (columns df) ''state'' r
                else cell_at (columns df) c r)))"
      by (intro exI [of _ ?f]) simp
    with c show ?thesis by (rule conjI)
  qed
  from both show "columns out =
      (if ''state_original'' \<in> set (columns df) then columns df
       else columns df @ [''state_original''])" by (rule conjunct1)
  from both show "\<exists>f. rows out = map f (rows df) \<and>
      (\<forall>r. length r = length (columns df) \<longrightarrow>
         length (f r) = length (columns out)
         \<and> (\<forall>c. cell_at (columns out) c (f r) =
               (if c = ''state'' then Str (standardize_state (cell_at (columns df) ''state'' r))
                else if c = ''state_original'' then cell_at (columns df) ''state'' r
                else cell_at (columns df) c r)))" by (rule conjunct2)
qed

lemma convert_dates_Inr:
  "convert_dates df = Inr out \<Longrightarrow>
     \<exists>j. index_of ''date'' (columns df) = Some j \<and>
       out = df\<lparr>rows := map (\<lambda>r. r[j := strftime_ymd (to_datetime (r ! j))]) (rows df)\<rparr>"
  using convert_dates_rows [of df] convert_dates_KeyError [of df]
  by (cases "index_of ''date'' (columns df)") auto

lemma validate_pincodes_Inr:
  "validate_pincodes df = Inr out \<Longrightarrow>
     \<exists>j. index_of ''pincode'' (columns df) = Some j \<and>
       out = df\<lparr>rows := map (\<lambda>r. r[j := Str (zfill 6
               (dtype_str (float_column (map (\<lambda>r. r ! j) (rows df))) (r ! j)))]) (rows df)\<rparr>"
  using validate_pincodes_rows [of df]
  by (cases "index_of ''pincode'' (columns df)")
     (auto simp: validate_pincodes_def getitem_def bind_err_def)

lemma cell_at_nth: "index_of c cols = Some j \<Longrightarrow> r ! j = cell_at cols c r"
  by (simp add: cell_at_def)

lemma clean_frame_rows:
  assumes wf: "wf_frame raw" and c: "clean_frame raw = Inr out"
  shows "\<exists>F. mset (rows out) = image_mset F (mset (rows (drop_duplicates raw)))
         \<and> (\<forall>q\<in>set (rows raw).
               length (F q) = length (columns out)
               \<and> last (F q) = cell_at (columns raw) ''state'' q
               \<and> (\<forall>c. cell_at (columns out) c (F q) =
                 (if c = ''pincode''
                  then Str (zfill 6 (dtype_str (float_column (map (cell_at (columns raw) ''pincode'') (rows raw)))
                                       (cell_at (columns raw) ''pincode'' q)))
                  else if c = ''date'' then strftime_ymd (to_datetime (cell_at (columns raw) ''date'' q))
                  else if c = ''district''
                    then str_method title (str_method strip (cell_at (columns raw) ''district'' q))
                  else if c = ''state''
                    then Str (standardize_state (cell_at (columns raw) ''state'' q))
                  else if c = ''state_original'' then cell_at (columns raw) ''state'' q
                  else cell_at (columns raw) c q)))"
proof -
  let ?so = "''state_original''"
  define C where "C = columns raw"
  define D where "D = rows (drop_duplicates raw)"
  define FL where "FL = float_column (map (cell_at C ''pincode'') (rows raw))"
  from c obtain d1 d2 d3 d4 d5 where
    s1: "standardize_states (drop_duplicates raw) = Inr d1" and
    s2: "standardize_districts d1 = Inr d2" and
    s3: "convert_dates d2 = Inr d3" and
    s4: "validate_pincodes d3 = Inr d4" and
    s5: "sort_values d4 sort_cols = Inr d5" and
    s6: "reorder_columns d5 = Inr out"
    by (rule clean_frame_stages)
  have cd: "columns (drop_duplicates raw) = C" by (simp add: drop_duplicates_def C_def)
  have Dset: "set D = set (rows raw)"
    by (simp add: D_def drop_duplicates_def first_occurrences_set)
  from wf have len: "\<And>q. q \<in> set (rows raw) \<Longrightarrow> length q = length C"
    by (simp add: wf_frame_def list_all_iff C_def)
  define C1 where "C1 = columns d1"
  from standardize_states_rows(2) [OF s1]
  have "\<exists>f. rows d1 = map f D \<and>
      (\<forall>r. length r = length C \<longrightarrow>
         length (f r) = length C1
         \<and> (\<forall>c. cell_at C1 c (f r) =
               (if c = ''state'' then Str (standardize_state (cell_at C ''state'' r))
                else if c = ?so then cell_at C ''state'' r
                else cell_at C c r)))"
    unfolding cd C1_def D_def by simp
  then obtain f1 where r1: "rows d1 = map f1 D"
    and p1: "\<And>r. length r = length C \<Longrightarrow>
         length (f1 r) = length C1
         \<and> (\<forall>c. cell_at C1 c (f1 r) =
               (if c = ''state'' then Str (standardize_state (cell_at C ''state'' r))
                else if c = ?so then cell_at C ''state'' r
                else cell_at C c r))"
    by blast
  from standardize_districts_rows [OF s2] obtain j2 where
    j2: "index_of ''district'' C1 = Some j2" and
    d2: "d2 = d1\<lparr>rows := map (\<lambda>r. r[j2 := str_method title (str_method strip (r ! j2))]) (rows d1)\<rparr>"
    unfolding C1_def by blast
  from d2 have cols2: "columns d2 = C1" by (simp add: C1_def)
  from convert_dates_Inr [OF s3] obtain j3 where
    j3: "index_of ''date'' C1 = Some j3" and
    d3: "d3 = d2\<lparr>rows := map (\<lambda>r. r[j3 := strftime_ymd (to_datetime (r ! j3))]) (rows d2)\<rparr>"
    unfolding cols2 by blast
  from d3 cols2 have cols3: "columns d3 = C1" by simp
  define fl where "fl = (\<lambda>j4. float_column (map (\<lambda>r. r ! j4) (rows d3)))"
  from validate_pincodes_Inr [OF s4] obtain j4 where
    j4: "index_of ''pincode'' C1 = Some j4" and
    d4: "d4 = d3\<lparr>rows := map (\<lambda>r. r[j4 := Str (zfill 6 (dtype_str (fl j4) (r ! j4)))]) (rows d3)\<rparr>"
    unfolding cols3 fl_def by blast
  from d4 cols3 have cols4: "columns d4 = C1" by simp
  note d5 = sort_values_sort_cols [OF s5]
  from d5 cols4 have cols5: "columns d5 = C1" by simp
  note r6 = reorder_columns_Inr [OF s6, unfolded cols5]
  define u2 where "u2 = (\<lambda>r. r[j2 := str_method title (str_method strip (r ! j2))])"
  define u3 where "u3 = (\<lambda>r. r[j3 := strftime_ymd (to_datetime (r ! j3))])"
  define u4 where "u4 = (\<lambda>r. r[j4 := Str (zfill 6 (dtype_str (fl j4) (r ! j4)))])"
  have r3: "rows d3 = map (\<lambda>r. u3 (u2 r)) (rows d1)"
    by (simp add: d3 d2 u2_def u3_def comp_def)
  have r4: "rows d4 = map (\<lambda>r. u4 (u3 (u2 r))) (rows d1)"
    by (simp add: d4 d3 d2 u2_def u3_def u4_def comp_def)
  have p23: "length (u3 (u2 r)) = length C1
      \<and> (\<forall>c. cell_at C1 c (u3 (u2 r)) =
            (if c = ''date'' then strftime_ymd (to_datetime (cell_at C1 ''date'' r))
             else if c = ''district'' then str_method title (str_method strip (cell_at C1 ''district'' r))
             else cell_at C1 c r))" if l: "length r = length C1" for r
  proof -
    from l have l2: "length (u2 r) = length C1" by (simp add: u2_def)
    have a: "cell_at C1 c (u2 r) =
        (if c = ''district'' then str_method title (str_method strip (cell_at C1 ''district'' r))
         else cell_at C1 c r)" for c
      unfolding u2_def cell_at_nth [OF j2] by (rule cell_at_update [OF j2 l])
    have b: "cell_at C1 c (u3 (u2 r)) =
        (if c = ''date'' then strftime_ymd (to_datetime (cell_at C1 ''date'' (u2 r)))
         else cell_at C1 c (u2 r))" for c
      unfolding u3_def cell_at_nth [OF j3] by (rule cell_at_update [OF j3 l2])
    from l2 have "length (u3 (u2 r)) = length C1" by (simp add: u3_def)
    moreover have "\<forall>c. cell_at C1 c (u3 (u2 r)) =
            (if c = ''date'' then strftime_ymd (to_datetime (cell_at C1 ''date'' r))
             else if c = ''district'' then str_method title (str_method strip (cell_at C1 ''district'' r))
             else cell_at C1 c r)"
      by (simp add: b a)
    ultimately show ?thesis by simp
  qed
  have pin: "(u3 (u2 (f1 q))) ! j4 = cell_at C ''pincode'' q" if q: "q \<in> set (rows raw)" for q
  proof -
    note P1 = p1 [OF len [OF q]]
    from P1 have "length (f1 q) = length C1" by simp
    from p23 [OF this] have "cell_at C1 ''pincode'' (u3 (u2 (f1 q))) = cell_at C1 ''pincode'' (f1 q)"
      by simp
    with P1 show ?thesis by (simp add: cell_at_nth [OF j4])
  qed
  have "map (\<lambda>r. r ! j4) (rows d3) = map (cell_at C ''pincode'') D"
    unfolding r3 r1 using pin Dset by simp
  then have "fl j4 = float_column (map (cell_at C ''pincode'') D)" by (simp add: fl_def)
  also have "\<dots> = FL"
    unfolding FL_def by (rule float_column_set) (simp add: Dset)
  finally have flj: "fl j4 = FL" .
  have pu: "length (u4 (u3 (u2 r))) = length C1
      \<and> (\<forall>c. cell_at C1 c (u4 (u3 (u2 r))) =
            (if c = ''pincode'' then Str (zfill 6 (dtype_str FL (cell_at C1 ''pincode'' r)))
             else if c = ''date'' then strftime_ymd (to_datetime (cell_at C1 ''date'' r))
             else if c = ''district'' then str_method title (str_method strip (cell_at C1 ''district'' r))
             else cell_at C1 c r))" if l: "length r = length C1" for r
  proof -
    note P = p23 [OF l]
    from P have l3: "length (u3 (u2 r)) = length C1" by simp
    have cc: "cell_at C1 c (u4 (u3 (u2 r))) =
        (if c = ''pincode'' then Str (zfill 6 (dtype_str FL (cell_at C1 ''pincode'' (u3 (u2 r)))))
         else cell_at C1 c (u3 (u2 r)))" for c
      unfolding u4_def flj cell_at_nth [OF j4] by (rule cell_at_update [OF j4 l3])
    have "length (u4 (u3 (u2 r))) = length C1" using l3 by (simp add: u4_def)
    moreover have "\<forall>c. cell_at C1 c (u4 (u3 (u2 r))) =
            (if c = ''pincode'' then Str (zfill 6 (dtype_str FL (cell_at C1 ''pincode'' r)))
             else if c = ''date'' then strftime_ymd (to_datetime (cell_at C1 ''date'' r))
             else if c = ''district'' then str_method title (str_method strip (cell_at C1 ''district'' r))
             else cell_at C1 c r)"
      using P by (simp add: cc)
    ultimately show ?thesis by simp
  qed
  define F where "F = (\<lambda>q. map (\<lambda>c. (u4 (u3 (u2 (f1 q)))) ! the (index_of c C1)) (columns out))"
  have e54: "mset (rows d5) = mset (rows d4)"
    by (simp add: d5 mergesort_by_mset)
  have "mset (rows out) = image_mset (\<lambda>x. map (\<lambda>c. x ! the (index_of c C1)) (columns out)) (mset (rows d5))"
    unfolding r6(3) by simp
  also have "\<dots> = image_mset (\<lambda>x. map (\<lambda>c. x ! the (index_of c C1)) (columns out)) (mset (rows d4))"
    by (simp only: e54)
  also have "rows d4 = map (\<lambda>q. u4 (u3 (u2 (f1 q)))) D"
    unfolding r4 r1 by simp
  also have "image_mset (\<lambda>x. map (\<lambda>c. x ! the (index_of c C1)) (columns out))
        (mset (map (\<lambda>q. u4 (u3 (u2 (f1 q)))) D)) = image_mset F (mset D)"
    unfolding F_def by (simp add: image_mset.compositionality comp_def)
  finally have ms: "mset (rows out) = image_mset F (mset (rows (drop_duplicates raw)))"
    by (simp add: D_def)
  have props: "length (F q) = length (columns out)
               \<and> last (F q) = cell_at C ''state'' q
               \<and> (\<forall>c. cell_at (columns out) c (F q) =
                 (if c = ''pincode'' then Str (zfill 6 (dtype_str FL (cell_at C ''pincode'' q)))
                  else if c = ''date'' then strftime_ymd (to_datetime (cell_at C ''date'' q))
                  else if c = ''district''
                    then str_method title (str_method strip (cell_at C ''district'' q))
                  else if c = ''state''
                    then Str (standardize_state (cell_at C ''state'' q))
                  else if c = ?so then cell_at C ''state'' q
                  else cell_at C c q))" if qr: "q \<in> set (rows raw)" for q
  proof -
    define x where "x = u4 (u3 (u2 (f1 q)))"
    have r': "F q = map (\<lambda>c. x ! the (index_of c C1)) (columns out)"
      by (simp add: F_def x_def)
    note P1 = p1 [OF len [OF qr]]
    from P1 have "length (f1 q) = length C1" by simp
    note PU = pu [OF this]
    have co: "columns out = filter (\<lambda>c. c \<noteq> ?so) C1 @ [?so]" by (rule r6(2))
    have la: "last (F q) = cell_at C1 ?so x"
      unfolding r' co by (rule reorder_last [OF r6(1)])
    have ce: "cell_at (columns out) c (F q) = cell_at C1 c x" for c
      unfolding r' co by (rule reorder_cell_at [OF r6(1)])
    have le: "length (F q) = length (columns out)" by (simp add: r')
    have full: "cell_at (columns out) c (F q) =
                 (if c = ''pincode'' then Str (zfill 6 (dtype_str FL (cell_at C ''pincode'' q)))
                  else if c = ''date'' then strftime_ymd (to_datetime (cell_at C ''date'' q))
                  else if c = ''district''
                    then str_method title (str_method strip (cell_at C ''district'' q))
                  else if c = ''state''
                    then Str (standardize_state (cell_at C ''state'' q))
                  else if c = ?so then cell_at C ''state'' q
                  else cell_at C c q)" for c
      using P1 PU by (simp add: ce x_def)
    from la full [of ?so] have "last (F q) = cell_at C ''state'' q" by (simp add: ce)
    with le full show ?thesis by blast
  qed
  from ms props show ?thesis
    unfolding C_def FL_def by (intro exI [of _ F]) blast
qed

lemma clean_frame_cells:
  assumes wf: "wf_frame raw" and c: "clean_frame raw = Inr out"
  shows "\<forall>r'\<in>set (rows out). \<exists>q\<in>set (rows raw).
           length r' = length (columns out)
           \<and> last r' = cell_at (columns raw) ''state'' q
           \<and> (\<forall>c. cell_at (columns out) c r' =
                 (if c = ''pincode''
                  then Str (zfill 6 (dtype_str (float_column (map (cell_at (columns raw) ''pincode'') (rows raw)))
                                       (cell_at (columns raw) ''pincode'' q)))
                  else if c = ''date'' then strftime_ymd (to_datetime (cell_at (columns raw) ''date'' q))
                  else if c = ''district''
                    then str_method title (str_method strip (cell_at (columns raw) ''district'' q))
                  else if c = ''state''
                    then Str (standardize_state (cell_at (columns raw) ''state'' q))
                  else if c = ''state_original'' then cell_at (columns raw) ''state'' q
                  else cell_at (columns raw) c q))"
proof
  fix r' assume r: "r' \<in> set (rows out)"
  from clean_frame_rows [OF wf c] obtain F where
    m: "mset (rows out) = image_mset F (mset (rows (drop_duplicates raw)))"
    and p: "\<forall>q\<in>set (rows raw).
               length (F q) = length (columns out)
               \<and> last (F q) = cell_at (columns raw) ''state'' q
               \<and> (\<forall>c. cell_at (columns out) c (F q) =
                 (if c = ''pincode''
                  then Str (zfill 6 (dtype_str (float_column (map (cell_at (columns raw) ''pincode'') (rows raw)))
                                       (cell_at (columns raw) ''pincode'' q)))
                  else if c = ''date'' then strftime_ymd (to_datetime (cell_at (columns raw) ''date'' q))
                  else if c = ''district''
                    then str_method title (str_method strip (cell_at (columns raw) ''district'' q))
                  else if c = ''state''
                    then Str (standardize_state (cell_at (columns raw) ''state'' q))
                  else if c = ''state_original'' then cell_at (columns raw) ''state'' q
                  else cell_at (columns raw) c q))"
    by blast
  from m have "set (rows out) = F ` set (rows (drop_duplicates raw))"
    by (metis set_image_mset set_mset_mset)
  with r obtain q where q: "q \<in> set (rows raw)" and e: "r' = F q"
    by (auto simp: drop_duplicates_def first_occurrences_set)
  from p q e show "\<exists>q\<in>set (rows raw).
           length r' = length (columns out)
           \<and> last r' = cell_at (columns raw) ''state'' q
           \<and> (\<forall>c. cell_at (columns out) c r' =
                 (if c = ''pincode''
                  then Str (zfill 6 (dtype_str (float_column (map (cell_at (columns raw) ''pincode'') (rows raw)))
                                       (cell_at (columns raw) ''pincode'' q)))
                  else if c = ''date'' then strftime_ymd (to_datetime (cell_at (columns raw) ''date'' q))
                  else if c = ''district''
                    then str_method title (str_method strip (cell_at (columns raw) ''district'' q))
                  else if c = ''state''
                    then Str (standardize_state (cell_at (columns raw) ''state'' q))
                  else if c = ''state_original'' then cell_at (columns raw) ''state'' q
                  else cell_at (columns raw) c q))"
    by (intro bexI [of _ q]) simp_all
qed



lemma split_and_save_files:
  assumes "1 \<le> max_rows" and "split_and_save df base max_rows fs = (Inr infos, fs')"
  shows "\<forall>info\<in>set infos. \<exists>shard. fs' (file_path info) = Some shard
           \<and> columns shard = columns df \<and> set (rows shard) \<subseteq> set (rows df)"
proof -
  define k where "k = (if int (length (rows df)) \<le> max_rows then 1
      else (length (rows df) + nat max_rows - 1) div nat max_rows)"
  from split_and_save_result [OF assms(1), of df base fs] assms(2)
  have i: "infos = map (\<lambda>i. \<lparr>file_path = part_file base (int i + 1),
                 nrows = length (take (nat max_rows) (drop (i * nat max_rows) (rows df)))\<rparr>) [0..<k]"
    and f: "\<forall>i<k. fs' (part_file base (int i + 1)) =
            Some (df\<lparr>rows := take (nat max_rows) (drop (i * nat max_rows) (rows df))\<rparr>)"
    unfolding k_def by auto
  show ?thesis
  proof
    fix info assume "info \<in> set infos"
    with i obtain n where n: "n < k" and p: "file_path info = part_file base (int n + 1)"
      by auto
    from f n p have "fs' (file_path info) =
        Some (df\<lparr>rows := take (nat max_rows) (drop (n * nat max_rows) (rows df))\<rparr>)" by simp
    moreover have "set (take (nat max_rows) (drop (n * nat max_rows) (rows df))) \<subseteq> set (rows df)"
      by (meson in_set_dropD in_set_takeD subsetI)
    ultimately show "\<exists>shard. fs' (file_path info) = Some shard
           \<and> columns shard = columns df \<and> set (rows shard) \<subseteq> set (rows df)"
      by simp
  qed
qed












text \<open>
  Claim C8. When no CSV file is found, \<open>clean_dataset\<close> raises the \<open>ValueError\<close> of
  \<open>pd.concat\<close> on an empty list; nothing catches it, and nothing has been written.
\<close>

theorem no_input_files_fail:
  "pd_concat [] = Inl ValueError
   \<and> clean_dataset [] output_base dataset_name fs = (Inl ValueError, fs)"
  by (simp add: pd_concat_def clean_dataset_def)

lemma strftime_ymd_missing: "(strftime_ymd t = NaN) = (t = None)"
  by (cases t) (auto simp: strftime_ymd_def)

text \<open>
  Claim C10. In the table that \<open>clean_dataset\<close> saves, a row whose date is the missing
  value comes after every row that has a date. For a well-formed input the date of a
  saved row is the converted date of an input row, so it is missing exactly when that
  date did not parse. The table is a function of the input, so the placement is the
  same on every run.
\<close>

theorem missing_dates_last:
  "(clean_frame raw = Inr out \<longrightarrow>
     sorted (map (sort_key_of (columns out)) (rows out))
     \<and> (\<forall>i j. i < length (rows out) \<and> j < length (rows out)
            \<and> cell_at (columns out) ''date'' (rows out ! i) = NaN
            \<and> cell_at (columns out) ''date'' (rows out ! j) \<noteq> NaN
          \<longrightarrow> j < i))
   \<and> (wf_frame raw \<and> clean_frame raw = Inr out \<longrightarrow>
        (\<forall>r\<in>set (rows out). \<exists>q\<in>set (rows raw).
           cell_at (columns out) ''date'' r
             = strftime_ymd (to_datetime (cell_at (columns raw) ''date'' q))))
   \<and> (strftime_ymd t = NaN) = (t = None)"
proof (intro impI conjI allI)
  assume a: "clean_frame raw = Inr out"
  show s: "sorted (map (sort_key_of (columns out)) (rows out))"
    by (rule clean_frame_sorted [OF a])
  fix i j
  assume h: "i < length (rows out) \<and> j < length (rows out)
            \<and> cell_at (columns out) ''date'' (rows out ! i) = NaN
            \<and> cell_at (columns out) ''date'' (rows out ! j) \<noteq> NaN"
  show "j < i"
  proof (rule ccontr)
    assume "\<not> j < i"
    then have "i \<le> j" by simp
    with s h have "map (sort_key_of (columns out)) (rows out) ! i
        \<le> map (sort_key_of (columns out)) (rows out) ! j"
      by (intro sorted_nth_mono) simp_all
    with h have "sort_key_of (columns out) (rows out ! i) \<le> sort_key_of (columns out) (rows out ! j)"
      by simp
    from missing_date_key [OF this] h show False by simp
  qed
next
  assume a: "wf_frame raw \<and> clean_frame raw = Inr out"
  then have wf: "wf_frame raw" and c: "clean_frame raw = Inr out" by simp_all
  show "\<forall>r\<in>set (rows out). \<exists>q\<in>set (rows raw).
           cell_at (columns out) ''date'' r
             = strftime_ymd (to_datetime (cell_at (columns raw) ''date'' q))"
  proof
    fix r assume "r \<in> set (rows out)"
    with clean_frame_cells [OF wf c] obtain q where q: "q \<in> set (rows raw)"
      and f: "\<And>c. cell_at (columns out) c r =
                 (if c = ''pincode''
                  then Str (zfill 6 (dtype_str (float_column (map (cell_at (columns raw) ''pincode'') (rows raw)))
                                       (cell_at (columns raw) ''pincode'' q)))
                  else if c = ''date'' then strftime_ymd (to_datetime (cell_at (columns raw) ''date'' q))
                  else if c = ''district''
                    then str_method title (str_method strip (cell_at (columns raw) ''district'' q))
                  else if c = ''state''
                    then Str (standardize_state (cell_at (columns raw) ''state'' q))
                  else if c = ''state_original'' then cell_at (columns raw) ''state'' q
                  else cell_at (columns raw) c q)"
      by blast
    from f [of "''date''"] q
    show "\<exists>q\<in>set (rows raw). cell_at (columns out) ''date'' r
             = strftime_ymd (to_datetime (cell_at (columns raw) ''date'' q))"
      by (intro bexI [of _ q]) simp_all
  qed
next
  show "(strftime_ymd t = NaN) = (t = None)" by (rule strftime_ymd_missing)
qed

theorem missing_dates_last_witness:
  "clean_frame \<lparr>columns = [''date'', ''state'', ''district'', ''pincode''],
     rows = [[Str ''31-02-2025'', Str ''Goa'', Str ''North Goa'', Num 403001],
             [Str ''02-03-2025'', Str ''Goa'', Str ''north goa '', Num 403002],
             [Str ''02-03-2025'', Str ''Goa'', Str ''North Goa'', Num 403002],
             [Str ''31-02-2025'', Str ''Goa'', Str ''North Goa'', Num 403001]]\<rparr>
   = Inr \<lparr>columns = [''date'', ''state'', ''district'', ''pincode'', ''state_original''],
     rows = [[Str ''2025-03-02'', Str ''Goa'', Str ''North Goa'', Str ''403002'', Str ''Goa''],
             [Str ''2025-03-02'', Str ''Goa'', Str ''North Goa'', Str ''403002'', Str ''Goa''],
             [NaN, Str ''Goa'', Str ''North Goa'', Str ''403001'', Str ''Goa'']]\<rparr>
   \<and> sorted (map (sort_key_of [''date'', ''state'', ''district'', ''pincode'', ''state_original''])
        [[Str ''2025-03-02'', Str ''Goa'', Str ''North Goa'', Str ''403002'', Str ''Goa''],
         [Str ''2025-03-02'', Str ''Goa'', Str ''North Goa'', Str ''403002'', Str ''Goa''],
         [NaN, Str ''Goa'', Str ''North Goa'', Str ''403001'', Str ''Goa'']])
   \<and> (1::nat) < 2
   \<and> list_all (\<lambda>r. list_ex (\<lambda>q. cell_at [''date'', ''state'', ''district'', ''pincode'', ''state_original'']
                                  ''date'' r
                              = strftime_ymd (to_datetime
                                  (cell_at [''date'', ''state'', ''district'', ''pincode''] ''date'' q)))
                  [[Str ''31-02-2025'', Str ''Goa'', Str ''North Goa'', Num 403001],
                   [Str ''02-03-2025'', Str ''Goa'', Str ''north goa '', Num 403002],
                   [Str ''02-03-2025'', Str ''Goa'', Str ''North Goa'', Num 403002],
                   [Str ''31-02-2025'', Str ''Goa'', Str ''North Goa'', Num 403001]])
        [[Str ''2025-03-02'', Str ''Goa'', Str ''North Goa'', Str ''403002'', Str ''Goa''],
         [Str ''2025-03-02'', Str ''Goa'', Str ''North Goa'', Str ''403002'', Str ''Goa''],
         [NaN, Str ''Goa'', Str ''North Goa'', Str ''403001'', Str ''Goa'']]"
proof -
  let ?raw = "\<lparr>columns = [''date'', ''state'', ''district'', ''pincode''],
     rows = [[Str ''31-02-2025'', Str ''Goa'', Str ''North Goa'', Num 403001],
             [Str ''02-03-2025'', Str ''Goa'', Str ''north goa '', Num 403002],
             [Str ''02-03-2025'', Str ''Goa'', Str ''North Goa'', Num 403002],
             [Str ''31-02-2025'', Str ''Goa'', Str ''North Goa'', Num 403001]]\<rparr>"
  let ?cols = "[''date'', ''state'', ''district'', ''pincode'', ''state_original'']"
  let ?out = "\<lparr>columns = ?cols,
     rows = [[Str ''2025-03-02'', Str ''Goa'', Str ''North Goa'', Str ''403002'', Str ''Goa''],
             [Str ''2025-03-02'', Str ''Goa'', Str ''North Goa'', Str ''403002'', Str ''Goa''],
             [NaN, Str ''Goa'', Str ''North Goa'', Str ''403001'', Str ''Goa'']]\<rparr>"
  note t = missing_dates_last [of ?raw ?out]
  note t1 = t [THEN conjunct1, rule_format, OF clean_frame_example]
  from t1 [THEN conjunct1] have s: "sorted (map (sort_key_of ?cols) (rows ?out))" by simp
  have h: "2 < length (rows ?out) \<and> 1 < length (rows ?out)
      \<and> cell_at (columns ?out) ''date'' (rows ?out ! 2) = NaN
      \<and> cell_at (columns ?out) ''date'' (rows ?out ! 1) \<noteq> NaN"
    by (simp add: cell_at_def)
  from t1 [THEN conjunct2, rule_format, OF h] have o: "(1::nat) < 2" .
  have wf: "wf_frame ?raw \<and> clean_frame ?raw = Inr ?out"
    using clean_frame_example by (simp add: wf_frame_def)
  from t [THEN conjunct2, THEN conjunct1, rule_format, OF wf]
  have d: "list_all (\<lambda>r. list_ex (\<lambda>q. cell_at (columns ?out) ''date'' r
                = strftime_ymd (to_datetime (cell_at (columns ?raw) ''date'' q))) (rows ?raw))
             (rows ?out)"
    unfolding list_all_iff list_ex_iff by blast
  show ?thesis
    apply (intro conjI)
       apply (rule clean_frame_example)
      apply (rule s [unfolded dataframe.simps])
     apply (rule o)
    apply (rule d [unfolded dataframe.simps])
    done
qed


end
